theory Spec2Isabelle
  imports Complex_Main "HOL-Library.Word"
begin

section \<open>Strings\<close>

text \<open>
  A text is a list of code units. The model covers texts whose UTF-16 code units lie in
  the 8-bit range (Latin-1), one \<^typ>\<open>char\<close> per code unit; \<open>length\<close> then counts
  what the program's \<open>.length\<close> counts.
\<close>

text \<open>\<open>String.prototype.toLowerCase\<close> on that range: A-Z and the accented capitals
  (0xC0-0xDE without the multiplication sign 0xD7) move up by 32.\<close>

definition lower_char :: "char \<Rightarrow> char" where
  "lower_char c =
     (let n = (of_char c :: nat)
      in if (65 \<le> n \<and> n \<le> 90) \<or> (192 \<le> n \<and> n \<le> 222 \<and> n \<noteq> 215)
         then char_of (n + 32) else c)"

definition toLowerCase :: "string \<Rightarrow> string" where
  "toLowerCase s = map lower_char s"

text \<open>\<open>String.prototype.startsWith\<close>: the search string, unit by unit, from the start.\<close>

fun startsWith :: "'a list \<Rightarrow> 'a list \<Rightarrow> bool" where
  "startsWith s [] = True"
| "startsWith [] (p # ps) = False"
| "startsWith (c # cs) (p # ps) = (c = p \<and> startsWith cs ps)"

text \<open>\<open>String.prototype.includes\<close>: the search string starts at some position.\<close>

fun includes_str :: "string \<Rightarrow> string \<Rightarrow> bool" where
  "includes_str [] s = (s = [])"
| "includes_str (c # cs) s = (startsWith (c # cs) s \<or> includes_str cs s)"

section \<open>The regular expression of the keyword check\<close>

text \<open>
  \<open>new RegExp(`\\b${keyword}\\b`, 'i')\<close> for a keyword without regular-expression
  metacharacters: the keyword's code units in sequence, compared after the
  case-insensitive canonicalisation of a non-Unicode pattern, between two word boundaries.
\<close>

text \<open>A word character of \<open>\b\<close> and \<open>\w\<close>: a letter, a digit or the underscore.\<close>

definition is_word_char :: "char \<Rightarrow> bool" where
  "is_word_char c =
     (let n = (of_char c :: nat)
      in (97 \<le> n \<and> n \<le> 122) \<or> (65 \<le> n \<and> n \<le> 90) \<or> (48 \<le> n \<and> n \<le> 57) \<or> n = 95)"

text \<open>Canonicalize of a pattern with flag \<open>i\<close> and without flag \<open>u\<close>: the upper-case
  form when it is one code unit, and never from outside ASCII into ASCII. The small
  y with diaeresis and the micro sign have their capitals outside the 8-bit range, the
  sharp s has a two-unit capital and keeps itself. The result is a code unit number.\<close>

definition canonicalize :: "char \<Rightarrow> nat" where
  "canonicalize c =
     (let n = (of_char c :: nat)
      in if 97 \<le> n \<and> n \<le> 122 then n - 32
         else if 224 \<le> n \<and> n \<le> 254 \<and> n \<noteq> 247 then n - 32
         else if n = 255 then 376
         else if n = 181 then 924
         else n)"

text \<open>
  The matcher runs over the text from left to right and knows, at each position, whether
  the code unit before it is a word character (\<open>prev\<close>; \<open>False\<close> at the start of the text).

  \<open>\b\<close>: exactly one of the code units before and at the position is a word character;
  there is none beyond the end of the text.
\<close>

definition word_boundary :: "bool \<Rightarrow> string \<Rightarrow> bool" where
  "word_boundary prev rest =
     (prev \<noteq> (case rest of [] \<Rightarrow> False | c # _ \<Rightarrow> is_word_char c))"

text \<open>The keyword's code units at the start of the rest of the text; the result is the
  position after them.\<close>

fun match_here :: "string \<Rightarrow> bool \<Rightarrow> string \<Rightarrow> (bool \<times> string) option" where
  "match_here [] prev rest = Some (prev, rest)"
| "match_here (k # ks) prev [] = None"
| "match_here (k # ks) prev (c # cs) =
     (if canonicalize c = canonicalize k then match_here ks (is_word_char c) cs else None)"

definition match_at :: "string \<Rightarrow> bool \<Rightarrow> string \<Rightarrow> bool" where
  "match_at keyword prev rest =
     (word_boundary prev rest \<and>
      (case match_here keyword prev rest of
         None \<Rightarrow> False
       | Some (prev', rest') \<Rightarrow> word_boundary prev' rest'))"

text \<open>The search for a match at the current position, then at each later one.\<close>

fun regex_search :: "string \<Rightarrow> bool \<Rightarrow> string \<Rightarrow> bool" where
  "regex_search keyword prev [] = match_at keyword prev []"
| "regex_search keyword prev (c # cs) =
     (match_at keyword prev (c # cs) \<or> regex_search keyword (is_word_char c) cs)"

text \<open>\<open>regex.test(txt)\<close>.\<close>

definition regex_test :: "string \<Rightarrow> string \<Rightarrow> bool" where
  "regex_test keyword txt = regex_search keyword False txt"

section \<open>The emotion detector\<close>

datatype BuddyMood =
  Idle | Thinking | Talking | Happy | Sleepy | Confused | Excited | Sad | Surprised
  | Embarrassed

record EmotionPattern =
  mood :: BuddyMood
  keywords_list :: "string list"
  phrases :: "string list"
  weight :: nat

definition EMOTION_PATTERNS :: "EmotionPattern list" where
  "EMOTION_PATTERNS =
    [ \<lparr> mood = Excited,
        keywords_list = [''wow'', ''amazing'', ''incredible'', ''fantastic'', ''awesome'',
                    ''brilliant'', ''excellent'', ''wonderful''],
        phrases = [''that'' @ [CHR 0x27] @ ''s exciting'', ''i can'' @ [CHR 0x27] @ ''t wait'',
                   ''this is great'', ''how exciting''],
        weight = 3 \<rparr>,
      \<lparr> mood = Sad,
        keywords_list = [''sorry'', ''unfortunately'', ''sad'', ''loss'', ''difficult'', ''tough'',
                    ''hard'', ''condolences'', ''miss''],
        phrases = [''i'' @ [CHR 0x27] @ ''m sorry to hear'', ''that must be hard'',
                   ''my condolences'', ''i understand how you feel''],
        weight = 3 \<rparr>,
      \<lparr> mood = Surprised,
        keywords_list = [''whoa'', ''unexpected'', ''really'', ''seriously'', ''no way'',
                    ''unbelievable''],
        phrases = [''i didn'' @ [CHR 0x27] @ ''t expect'', ''that'' @ [CHR 0x27] @ ''s surprising'',
                   ''wait what'', ''are you serious''],
        weight = 2 \<rparr>,
      \<lparr> mood = Happy,
        keywords_list = [''great'', ''good'', ''nice'', ''lovely'', ''glad'', ''happy'', ''pleased'',
                    ''enjoy'', ''love'', ''congratulations'', ''yay''],
        phrases = [''well done'', ''that'' @ [CHR 0x27] @ ''s great'', ''happy to help'',
                   ''glad to hear''],
        weight = 2 \<rparr>,
      \<lparr> mood = Confused,
        keywords_list = [''hmm'', ''unclear'', ''strange'', ''weird'', ''odd'', ''confusing'',
                    ''puzzling''],
        phrases = [''i'' @ [CHR 0x27] @ ''m not sure'', ''that'' @ [CHR 0x27] @ ''s strange'',
                   ''let me think'', ''i don'' @ [CHR 0x27] @ ''t understand''],
        weight = 2 \<rparr>,
      \<lparr> mood = Embarrassed,
        keywords_list = [''oops'', ''mistake'', ''wrong'', ''error'', ''apologies'', ''meant''],
        phrases = [''my mistake'', ''i was wrong'', ''let me correct'', ''i apologize''],
        weight = 2 \<rparr>,
      \<lparr> mood = Thinking,
        keywords_list = [''consider'', ''analyze'', ''think'', ''perhaps'', ''maybe'', ''might'',
                    ''possibly'', ''interesting''],
        phrases = [''let me think'', ''good question'', ''that depends'', ''considering''],
        weight = 1 \<rparr> ]"

text \<open>The body of the loop over the patterns, up to the comparison: the score of one
  pattern on the lower-cased text, by the two inner loops in their order (the phrases
  first, the keywords on top of what the phrases gave).\<close>

definition phrase_score :: "EmotionPattern \<Rightarrow> string \<Rightarrow> nat" where
  "phrase_score pattern lowerText =
     fold (\<lambda>phrase score.
             if includes_str lowerText phrase then score + weight pattern * 2 else score)
       (phrases pattern) 0"

definition pattern_score :: "EmotionPattern \<Rightarrow> string \<Rightarrow> nat" where
  "pattern_score pattern lowerText =
     fold (\<lambda>keyword score.
             if regex_test keyword lowerText then score + weight pattern else score)
       (keywords_list pattern) (phrase_score pattern lowerText)"

text \<open>One round of the outer loop on \<open>bestMatch\<close> (\<open>None\<close> is \<open>null\<close>).\<close>

definition best_step :: "string \<Rightarrow> EmotionPattern \<Rightarrow> (BuddyMood \<times> nat) option
    \<Rightarrow> (BuddyMood \<times> nat) option" where
  "best_step lowerText pattern bestMatch =
     (let score = pattern_score pattern lowerText
      in if 0 < score \<and> (case bestMatch of None \<Rightarrow> True | Some b \<Rightarrow> snd b < score)
         then Some (mood pattern, score) else bestMatch)"

definition best_of :: "EmotionPattern list \<Rightarrow> string \<Rightarrow> (BuddyMood \<times> nat) option" where
  "best_of patterns text = fold (best_step (toLowerCase text)) patterns None"

definition detectEmotion :: "string \<Rightarrow> BuddyMood option" where
  "detectEmotion text = map_option fst (best_of EMOTION_PATTERNS text)"

definition analyzeStreamingEmotion :: "string \<Rightarrow> BuddyMood \<Rightarrow> BuddyMood" where
  "analyzeStreamingEmotion fullText currentMood =
     (if length fullText < 50 then currentMood
      else (case detectEmotion fullText of
              Some detected \<Rightarrow> if detected \<noteq> Thinking then detected else currentMood
            | None \<Rightarrow> currentMood))"


section \<open>The reference definition of emotion detection\<close>

text \<open>
  The description of the detector in words, as definitions of its own, to be compared
  with \<^const>\<open>detectEmotion\<close>: a phrase counts when it occurs as a substring; a keyword
  counts when it occurs as a whole word, compared without regard to case, with no word
  character next to it on either side.
\<close>

definition is_substring :: "string \<Rightarrow> string \<Rightarrow> bool" where
  "is_substring s t = (\<exists>pre post. t = pre @ s @ post)"

definition whole_word_match :: "string \<Rightarrow> string \<Rightarrow> bool" where
  "whole_word_match keyword t =
     (\<exists>pre mid post. t = pre @ mid @ post
        \<and> map lower_char mid = map lower_char keyword
        \<and> (pre = [] \<or> \<not> is_word_char (last pre))
        \<and> (post = [] \<or> \<not> is_word_char (hd post)))"

definition score_ref :: "EmotionPattern \<Rightarrow> string \<Rightarrow> nat" where
  "score_ref pattern lowerText =
     weight pattern * 2 * length (filter (\<lambda>phrase. is_substring phrase lowerText) (phrases pattern))
     + weight pattern * 1
         * length (filter (\<lambda>keyword. whole_word_match keyword lowerText) (keywords_list pattern))"

text \<open>The first entry of a list whose score no entry of the list exceeds: the highest
  score, and the earlier entry among equals.\<close>

definition first_max :: "('a \<Rightarrow> nat) \<Rightarrow> 'a list \<Rightarrow> 'a option" where
  "first_max f cands = find (\<lambda>p. list_all (\<lambda>q. f q \<le> f p) cands) cands"

definition detectEmotion_ref :: "string \<Rightarrow> BuddyMood option" where
  "detectEmotion_ref text =
     (let lowerText = toLowerCase text;
          candidates = filter (\<lambda>p. 0 < score_ref p lowerText) EMOTION_PATTERNS
      in map_option mood (first_max (\<lambda>p. score_ref p lowerText) candidates))"

text \<open>A keyword as the table has them: not empty, with a word character first and last.\<close>

definition keyword_ok :: "string \<Rightarrow> bool" where
  "keyword_ok k = (k \<noteq> [] \<and> is_word_char (hd k) \<and> is_word_char (last k))"

text \<open>How often an element occurs in a text: the positions at which the phrase starts,
  and the positions at which the keyword's pattern matches.\<close>

fun phrase_occurrences :: "string \<Rightarrow> string \<Rightarrow> nat" where
  "phrase_occurrences [] s = (if s = [] then 1 else 0)"
| "phrase_occurrences (c # cs) s =
     (if startsWith (c # cs) s then 1 else 0) + phrase_occurrences cs s"

fun keyword_occurrences_from :: "string \<Rightarrow> bool \<Rightarrow> string \<Rightarrow> nat" where
  "keyword_occurrences_from keyword prev [] = (if match_at keyword prev [] then 1 else 0)"
| "keyword_occurrences_from keyword prev (c # cs) =
     (if match_at keyword prev (c # cs) then 1 else 0)
       + keyword_occurrences_from keyword (is_word_char c) cs"

definition keyword_occurrences :: "string \<Rightarrow> string \<Rightarrow> nat" where
  "keyword_occurrences keyword t = keyword_occurrences_from keyword False t"

text \<open>Two texts in which the same phrases and the same keywords of the patterns occur,
  however often.\<close>

definition same_elements :: "EmotionPattern list \<Rightarrow> string \<Rightarrow> string \<Rightarrow> bool" where
  "same_elements patterns t1 t2 =
     list_all (\<lambda>p.
        list_all (\<lambda>phrase. (0 < phrase_occurrences t1 phrase) = (0 < phrase_occurrences t2 phrase))
          (phrases p)
        \<and> list_all (\<lambda>keyword. (0 < keyword_occurrences keyword t1) = (0 < keyword_occurrences keyword t2))
          (keywords_list p))
       patterns"

text \<open>The first two entries of the table, by name.\<close>

definition excited_pattern :: EmotionPattern where
  "excited_pattern = EMOTION_PATTERNS ! 0"

definition sad_pattern :: EmotionPattern where
  "sad_pattern = EMOTION_PATTERNS ! 1"

section \<open>Auxiliary notions for the proofs\<close>

text \<open>Code units with a lower-case and with an upper-case partner in the 8-bit range,
  and the way back from a lower-cased unit to its canonical form.\<close>

definition has_lower :: "nat \<Rightarrow> bool" where
  "has_lower n = ((65 \<le> n \<and> n \<le> 90) \<or> (192 \<le> n \<and> n \<le> 222 \<and> n \<noteq> 215))"

definition has_upper :: "nat \<Rightarrow> bool" where
  "has_upper n = ((97 \<le> n \<and> n \<le> 122) \<or> (224 \<le> n \<and> n \<le> 254 \<and> n \<noteq> 247))"

definition fold_back :: "nat \<Rightarrow> nat" where
  "fold_back x =
     (if has_upper x then x - 32 else if x = 255 then 376 else if x = 181 then 924 else x)"

text \<open>Whether the code unit before the position after \<open>pre\<close> is a word character.\<close>

definition prev_after :: "bool \<Rightarrow> string \<Rightarrow> bool" where
  "prev_after prev pre = (if pre = [] then prev else is_word_char (last pre))"


section \<open>Values read from JSON\<close>

text \<open>
  The stream decoder works on any text: there a string is the list of its UTF-16 code
  units, as numbers. \<open>str\<close> gives the code units of an ASCII literal.
\<close>

type_synonym jstring = "nat list"

definition str :: "string \<Rightarrow> jstring" where
  "str s = map of_char s"

text \<open>
  What \<open>JSON.parse\<close> and \<open>response.json()\<close> produce. A number carries the value its
  literal denotes, before the rounding to a double. An object carries its members with
  the latest first, so that \<^const>\<open>map_of\<close> finds for a repeated key the value
  \<open>JSON.parse\<close> keeps, the last one. \<open>undefined\<close> is \<open>None\<close> of an optional value.
\<close>

datatype json =
  JNull | JBool bool | JNumber rat | JString jstring | JArray "json list"
  | JObject "(jstring \<times> json) list"

text \<open>What the program throws or what a promise it awaits rejects with: \<open>new Error(m)\<close>,
  whose message is \<open>m\<close> as a string; the \<open>TypeError\<close> of a property read on \<open>null\<close> or
  \<open>undefined\<close>; and a rejection of \<open>fetch\<close> or of \<open>reader.read()\<close>, by name and message
  (an abort has the name \<open>AbortError\<close>).\<close>

datatype thrown = NewError json | TypeError | Rejection jstring jstring

text \<open>\<open>if (v)\<close>: a number is falsy when its double is zero, that is, when the literal's
  value is at most \<open>2\<^sup>-\<^sup>1\<^sup>0\<^sup>7\<^sup>5\<close> in magnitude (half the least positive double, which rounds
  to zero).\<close>

fun truthy :: "json \<Rightarrow> bool" where
  "truthy JNull = False"
| "truthy (JBool b) = b"
| "truthy (JNumber r) = (1 / 2 ^ 1075 < \<bar>r\<bar>)"
| "truthy (JString s) = (s \<noteq> [])"
| "truthy (JArray xs) = True"
| "truthy (JObject ms) = True"

text \<open>
  \<open>v.name\<close> and \<open>v[0]\<close> on a value that came from JSON, for the property names this
  program reads (\<open>error\<close>, \<open>message\<close>, \<open>choices\<close>, \<open>0\<close>, \<open>delta\<close>, \<open>content\<close>): none of them
  is inherited from a prototype, and only \<open>0\<close> is an index of an array or of a string.
\<close>

fun get_prop :: "json \<Rightarrow> jstring \<Rightarrow> thrown + json option" where
  "get_prop JNull name = Inl TypeError"
| "get_prop (JObject ms) name = Inr (map_of ms name)"
| "get_prop (JArray xs) name =
     Inr (if name = str ''0'' then (case xs of [] \<Rightarrow> None | x # _ \<Rightarrow> Some x) else None)"
| "get_prop (JString s) name =
     Inr (if name = str ''0'' then (case s of [] \<Rightarrow> None | c # _ \<Rightarrow> Some (JString [c]))
          else None)"
| "get_prop (JNumber r) name = Inr None"
| "get_prop (JBool b) name = Inr None"

text \<open>\<open>v.name\<close> where \<open>v\<close> may be \<open>undefined\<close>.\<close>

definition get_member :: "json option \<Rightarrow> jstring \<Rightarrow> thrown + json option" where
  "get_member v name = (case v of None \<Rightarrow> Inl TypeError | Some x \<Rightarrow> get_prop x name)"

text \<open>\<open>v?.name\<close>: \<open>undefined\<close> when \<open>v\<close> is \<open>undefined\<close> or \<open>null\<close>.\<close>

definition get_optional :: "json option \<Rightarrow> jstring \<Rightarrow> thrown + json option" where
  "get_optional v name =
     (case v of None \<Rightarrow> Inr None | Some JNull \<Rightarrow> Inr None | Some x \<Rightarrow> get_prop x name)"

section \<open>JSON.parse\<close>

text \<open>
  The JSON grammar of ECMA-262, as a scanner that reads one code unit at a time and a
  parser that reads one token at a time. \<open>None\<close> is the \<open>SyntaxError\<close>.
\<close>

datatype token =
  TLBrace | TRBrace | TLBracket | TRBracket | TColon | TComma
  | TString jstring | TNumber rat | TLiteral json

datatype num_phase =
  AfterMinus | IntZero | IntDigits | AfterDot | FracDigits | AfterE | AfterESign | ExpDigits

record num_state =
  phase :: num_phase
  negative :: bool
  mantissa :: nat
  frac_len :: nat
  exp_negative :: bool
  exponent :: nat

datatype lex_state =
  LIdle
  | LStr jstring
  | LEsc jstring
  | LHex jstring nat nat
  | LWord jstring json
  | LNum num_state

definition is_digit :: "nat \<Rightarrow> bool" where
  "is_digit c = (48 \<le> c \<and> c \<le> 57)"

definition hex_value :: "nat \<Rightarrow> nat option" where
  "hex_value c =
     (if 48 \<le> c \<and> c \<le> 57 then Some (c - 48)
      else if 97 \<le> c \<and> c \<le> 102 then Some (c - 87)
      else if 65 \<le> c \<and> c \<le> 70 then Some (c - 55)
      else None)"

definition num_start :: "num_phase \<Rightarrow> bool \<Rightarrow> nat \<Rightarrow> num_state" where
  "num_start ph neg m =
     \<lparr> phase = ph, negative = neg, mantissa = m, frac_len = 0, exp_negative = False,
       exponent = 0 \<rparr>"

text \<open>The value of a number literal: its digits, their sign, and the power of ten of the
  exponent less the number of fraction digits.\<close>

definition num_value :: "num_state \<Rightarrow> rat" where
  "num_value n =
     (let m = (if negative n then - of_nat (mantissa n) else of_nat (mantissa n));
          e = (if exp_negative n then - int (exponent n) else int (exponent n))
                - int (frac_len n)
      in if 0 \<le> e then m * 10 ^ nat e else m / 10 ^ nat (- e))"

definition num_complete :: "num_state \<Rightarrow> bool" where
  "num_complete n = (phase n \<in> {IntZero, IntDigits, FracDigits, ExpDigits})"

text \<open>The next unit of a number literal, when the unit continues it.\<close>

definition num_step :: "num_state \<Rightarrow> nat \<Rightarrow> num_state option" where
  "num_step n c =
     (case phase n of
        AfterMinus \<Rightarrow>
          if c = 48 then Some (n\<lparr>phase := IntZero\<rparr>)
          else if 49 \<le> c \<and> c \<le> 57 then Some (n\<lparr>phase := IntDigits, mantissa := c - 48\<rparr>)
          else None
      | IntZero \<Rightarrow>
          if c = 46 then Some (n\<lparr>phase := AfterDot\<rparr>)
          else if c = 101 \<or> c = 69 then Some (n\<lparr>phase := AfterE\<rparr>)
          else None
      | IntDigits \<Rightarrow>
          if is_digit c then Some (n\<lparr>mantissa := mantissa n * 10 + (c - 48)\<rparr>)
          else if c = 46 then Some (n\<lparr>phase := AfterDot\<rparr>)
          else if c = 101 \<or> c = 69 then Some (n\<lparr>phase := AfterE\<rparr>)
          else None
      | AfterDot \<Rightarrow>
          if is_digit c
          then Some (n\<lparr>phase := FracDigits, mantissa := mantissa n * 10 + (c - 48),
                        frac_len := frac_len n + 1\<rparr>)
          else None
      | FracDigits \<Rightarrow>
          if is_digit c
          then Some (n\<lparr>mantissa := mantissa n * 10 + (c - 48), frac_len := frac_len n + 1\<rparr>)
          else if c = 101 \<or> c = 69 then Some (n\<lparr>phase := AfterE\<rparr>)
          else None
      | AfterE \<Rightarrow>
          if c = 43 then Some (n\<lparr>phase := AfterESign\<rparr>)
          else if c = 45 then Some (n\<lparr>phase := AfterESign, exp_negative := True\<rparr>)
          else if is_digit c then Some (n\<lparr>phase := ExpDigits, exponent := c - 48\<rparr>)
          else None
      | AfterESign \<Rightarrow>
          if is_digit c then Some (n\<lparr>phase := ExpDigits, exponent := c - 48\<rparr>) else None
      | ExpDigits \<Rightarrow>
          if is_digit c then Some (n\<lparr>exponent := exponent n * 10 + (c - 48)\<rparr>) else None)"

text \<open>A unit between tokens: white space, a punctuator, or the first unit of a string, a
  number or a literal name.\<close>

definition idle_step :: "nat \<Rightarrow> (lex_state \<times> token list) option" where
  "idle_step c =
     (if c = 32 \<or> c = 9 \<or> c = 10 \<or> c = 13 then Some (LIdle, [])
      else if c = 123 then Some (LIdle, [TLBrace])
      else if c = 125 then Some (LIdle, [TRBrace])
      else if c = 91 then Some (LIdle, [TLBracket])
      else if c = 93 then Some (LIdle, [TRBracket])
      else if c = 58 then Some (LIdle, [TColon])
      else if c = 44 then Some (LIdle, [TComma])
      else if c = 34 then Some (LStr [], [])
      else if c = 45 then Some (LNum (num_start AfterMinus True 0), [])
      else if c = 48 then Some (LNum (num_start IntZero False 0), [])
      else if 49 \<le> c \<and> c \<le> 57 then Some (LNum (num_start IntDigits False (c - 48)), [])
      else if c = 116 then Some (LWord (str ''rue'') (JBool True), [])
      else if c = 102 then Some (LWord (str ''alse'') (JBool False), [])
      else if c = 110 then Some (LWord (str ''ull'') JNull, [])
      else None)"

text \<open>The unit after a backslash in a string.\<close>

definition escape_unit :: "nat \<Rightarrow> nat option" where
  "escape_unit c =
     (if c = 34 \<or> c = 92 \<or> c = 47 then Some c
      else if c = 98 then Some 8
      else if c = 102 then Some 12
      else if c = 110 then Some 10
      else if c = 114 then Some 13
      else if c = 116 then Some 9
      else None)"

text \<open>One unit of input. A string is collected with its latest unit first.\<close>

fun lex_step :: "lex_state \<Rightarrow> nat \<Rightarrow> (lex_state \<times> token list) option" where
  "lex_step LIdle c = idle_step c"
| "lex_step (LStr acc) c =
     (if c = 34 then Some (LIdle, [TString (rev acc)])
      else if c = 92 then Some (LEsc acc, [])
      else if c < 32 then None
      else Some (LStr (c # acc), []))"
| "lex_step (LEsc acc) c =
     (if c = 117 then Some (LHex acc 0 0, [])
      else (case escape_unit c of None \<Rightarrow> None | Some u \<Rightarrow> Some (LStr (u # acc), [])))"
| "lex_step (LHex acc k v) c =
     (case hex_value c of
        None \<Rightarrow> None
      | Some h \<Rightarrow>
          if k = 3 then Some (LStr ((v * 16 + h) # acc), [])
          else Some (LHex acc (Suc k) (v * 16 + h), []))"
| "lex_step (LWord rest v) c =
     (case rest of
        [] \<Rightarrow> None
      | r # rs \<Rightarrow>
          if c \<noteq> r then None
          else if rs = [] then Some (LIdle, [TLiteral v])
          else Some (LWord rs v, []))"
| "lex_step (LNum n) c =
     (case num_step n c of
        Some n' \<Rightarrow> Some (LNum n', [])
      | None \<Rightarrow>
          if num_complete n
          then (case idle_step c of
                  None \<Rightarrow> None
                | Some (st, toks) \<Rightarrow> Some (st, TNumber (num_value n) # toks))
          else None)"

text \<open>The end of the input.\<close>

fun lex_finish :: "lex_state \<Rightarrow> token list option" where
  "lex_finish LIdle = Some []"
| "lex_finish (LNum n) = (if num_complete n then Some [TNumber (num_value n)] else None)"
| "lex_finish st = None"

fun lex :: "lex_state \<Rightarrow> jstring \<Rightarrow> token list option" where
  "lex st [] = lex_finish st"
| "lex st (c # cs) =
     (case lex_step st c of
        None \<Rightarrow> None
      | Some (st', toks) \<Rightarrow>
          (case lex st' cs of None \<Rightarrow> None | Some later \<Rightarrow> Some (toks @ later)))"

text \<open>The parser: the containers that are open, innermost first (an array with its
  elements so far, latest first; an object with its members so far and the key that
  waits for its value), and what may come next.\<close>

datatype frame = FArray "json list" | FObject "(jstring \<times> json) list" jstring

datatype expect =
  ExpValue | ExpValueOrClose | ExpKeyOrClose | ExpKey | ExpColon | ExpCommaOrClose
  | ExpEnd json

text \<open>A value is complete: it is the result, or an element or a member's value of the
  innermost open container.\<close>

fun complete_value :: "json \<Rightarrow> frame list \<Rightarrow> expect \<times> frame list" where
  "complete_value v [] = (ExpEnd v, [])"
| "complete_value v (FArray items # stack) = (ExpCommaOrClose, FArray (v # items) # stack)"
| "complete_value v (FObject ms k # stack) = (ExpCommaOrClose, FObject ((k, v) # ms) k # stack)"

definition start_value :: "token \<Rightarrow> frame list \<Rightarrow> (expect \<times> frame list) option" where
  "start_value tok stack =
     (case tok of
        TString s \<Rightarrow> Some (complete_value (JString s) stack)
      | TNumber r \<Rightarrow> Some (complete_value (JNumber r) stack)
      | TLiteral v \<Rightarrow> Some (complete_value v stack)
      | TLBracket \<Rightarrow> Some (ExpValueOrClose, FArray [] # stack)
      | TLBrace \<Rightarrow> Some (ExpKeyOrClose, FObject [] [] # stack)
      | _ \<Rightarrow> None)"

definition close_array :: "frame list \<Rightarrow> (expect \<times> frame list) option" where
  "close_array stack =
     (case stack of
        FArray items # rest \<Rightarrow> Some (complete_value (JArray (rev items)) rest)
      | _ \<Rightarrow> None)"

definition close_object :: "frame list \<Rightarrow> (expect \<times> frame list) option" where
  "close_object stack =
     (case stack of
        FObject ms k # rest \<Rightarrow> Some (complete_value (JObject ms) rest)
      | _ \<Rightarrow> None)"

definition set_key :: "jstring \<Rightarrow> frame list \<Rightarrow> (expect \<times> frame list) option" where
  "set_key k stack =
     (case stack of
        FObject ms _ # rest \<Rightarrow> Some (ExpColon, FObject ms k # rest)
      | _ \<Rightarrow> None)"

fun parse_step :: "expect \<Rightarrow> frame list \<Rightarrow> token \<Rightarrow> (expect \<times> frame list) option" where
  "parse_step ExpValue stack tok = start_value tok stack"
| "parse_step ExpValueOrClose stack tok =
     (if tok = TRBracket then close_array stack else start_value tok stack)"
| "parse_step ExpKeyOrClose stack tok =
     (case tok of TString k \<Rightarrow> set_key k stack | TRBrace \<Rightarrow> close_object stack | _ \<Rightarrow> None)"
| "parse_step ExpKey stack tok = (case tok of TString k \<Rightarrow> set_key k stack | _ \<Rightarrow> None)"
| "parse_step ExpColon stack tok = (if tok = TColon then Some (ExpValue, stack) else None)"
| "parse_step ExpCommaOrClose stack tok =
     (case tok of
        TComma \<Rightarrow>
          (case stack of
             FArray _ # _ \<Rightarrow> Some (ExpValue, stack)
           | FObject _ _ # _ \<Rightarrow> Some (ExpKey, stack)
           | [] \<Rightarrow> None)
      | TRBracket \<Rightarrow> close_array stack
      | TRBrace \<Rightarrow> close_object stack
      | _ \<Rightarrow> None)"
| "parse_step (ExpEnd v) stack tok = None"

fun parse_tokens :: "expect \<Rightarrow> frame list \<Rightarrow> token list \<Rightarrow> json option" where
  "parse_tokens e stack [] = (case e of ExpEnd v \<Rightarrow> Some v | _ \<Rightarrow> None)"
| "parse_tokens e stack (tok # toks) =
     (case parse_step e stack tok of
        None \<Rightarrow> None
      | Some (e', stack') \<Rightarrow> parse_tokens e' stack' toks)"

definition JSON_parse :: "jstring \<Rightarrow> json option" where
  "JSON_parse text =
     (case lex LIdle text of None \<Rightarrow> None | Some toks \<Rightarrow> parse_tokens ExpValue [] toks)"


section \<open>TextDecoder\<close>

text \<open>
  \<open>new TextDecoder()\<close> is the UTF-8 decoder of the Encoding Standard with replacement
  of errors and removal of a byte order mark, and \<open>decode(value, { stream: true })\<close>
  keeps its state from one call to the next. A byte is a \<^typ>\<open>8 word\<close>.
\<close>

type_synonym byte = "8 word"

record utf8_state =
  code_point :: nat
  bytes_seen :: nat
  bytes_needed :: nat
  lower_boundary :: nat
  upper_boundary :: nat

definition utf8_reset :: utf8_state where
  "utf8_reset =
     \<lparr> code_point = 0, bytes_seen = 0, bytes_needed = 0, lower_boundary = 0x80,
       upper_boundary = 0xBF \<rparr>"

text \<open>A byte when no bytes are needed: the new state and the code points put out.\<close>

definition utf8_lead :: "nat \<Rightarrow> utf8_state \<times> nat list" where
  "utf8_lead b =
     (if b \<le> 0x7F then (utf8_reset, [b])
      else if 0xC2 \<le> b \<and> b \<le> 0xDF
        then (utf8_reset\<lparr>bytes_needed := 1, code_point := b mod 0x20\<rparr>, [])
      else if 0xE0 \<le> b \<and> b \<le> 0xEF
        then (utf8_reset\<lparr>lower_boundary := (if b = 0xE0 then 0xA0 else 0x80),
                          upper_boundary := (if b = 0xED then 0x9F else 0xBF),
                          bytes_needed := 2, code_point := b mod 0x10\<rparr>, [])
      else if 0xF0 \<le> b \<and> b \<le> 0xF4
        then (utf8_reset\<lparr>lower_boundary := (if b = 0xF0 then 0x90 else 0x80),
                          upper_boundary := (if b = 0xF4 then 0x8F else 0xBF),
                          bytes_needed := 3, code_point := b mod 0x8\<rparr>, [])
      else (utf8_reset, [0xFFFD]))"

text \<open>The handler: a byte outside the boundaries is an error (U+FFFD) and is then read
  again from the reset state.\<close>

definition utf8_handler :: "utf8_state \<Rightarrow> byte \<Rightarrow> utf8_state \<times> nat list" where
  "utf8_handler s byte =
     (let b = unat byte
      in if bytes_needed s = 0 then utf8_lead b
         else if b < lower_boundary s \<or> upper_boundary s < b
           then (let (s', out) = utf8_lead b in (s', 0xFFFD # out))
         else (let cp = code_point s * 0x40 + b mod 0x40;
                   seen = bytes_seen s + 1
               in if seen \<noteq> bytes_needed s
                  then (s\<lparr>lower_boundary := 0x80, upper_boundary := 0xBF, code_point := cp,
                          bytes_seen := seen\<rparr>, [])
                  else (utf8_reset, [cp])))"

fun utf8_run :: "utf8_state \<Rightarrow> byte list \<Rightarrow> utf8_state \<times> nat list" where
  "utf8_run s [] = (s, [])"
| "utf8_run s (b # bs) =
     (let (s', out) = utf8_handler s b;
          (s'', out') = utf8_run s' bs
      in (s'', out @ out'))"

text \<open>The first code point ever put out is dropped when it is the byte order mark.\<close>

fun strip_bom :: "bool \<Rightarrow> nat list \<Rightarrow> bool \<times> nat list" where
  "strip_bom True cps = (True, cps)"
| "strip_bom False [] = (False, [])"
| "strip_bom False (cp # cps) = (True, if cp = 0xFEFF then cps else cp # cps)"

text \<open>A code point as UTF-16 code units.\<close>

definition utf16_units :: "nat \<Rightarrow> jstring" where
  "utf16_units cp =
     (if cp < 0x10000 then [cp]
      else [0xD800 + (cp - 0x10000) div 0x400, 0xDC00 + (cp - 0x10000) mod 0x400])"

record decoder_state =
  utf8 :: utf8_state
  bom_seen :: bool

definition new_TextDecoder :: decoder_state where
  "new_TextDecoder = \<lparr> utf8 = utf8_reset, bom_seen = False \<rparr>"

text \<open>\<open>decoder.decode(value, { stream: true })\<close>: the new state of the decoder and the
  string returned.\<close>

definition decode :: "decoder_state \<Rightarrow> byte list \<Rightarrow> decoder_state \<times> jstring" where
  "decode d val =
     (let (s, cps) = utf8_run (utf8 d) val;
          (seen, cps') = strip_bom (bom_seen d) cps
      in (\<lparr> utf8 = s, bom_seen = seen \<rparr>, concat (map utf16_units cps')))"

section \<open>The stream decoder\<close>

text \<open>\<open>buffer.split('\n')\<close>: the pieces between the line feeds, at least one.\<close>

fun split_nl :: "jstring \<Rightarrow> jstring list" where
  "split_nl [] = [[]]"
| "split_nl (c # cs) =
     (if c = 10 then [] # split_nl cs
      else (case split_nl cs of [] \<Rightarrow> [[c]] | l # ls \<Rightarrow> (c # l) # ls))"

text \<open>\<open>buffer = lines.pop() || ''\<close>: the last piece, taken off the array; the empty
  string when there is none or when it is empty.\<close>

definition pop_buffer :: "jstring list \<Rightarrow> jstring \<times> jstring list" where
  "pop_buffer lines = (if lines = [] then ([], []) else (last lines, butlast lines))"

text \<open>\<open>chunk.choices[0]?.delta?.content\<close>.\<close>

definition content_of :: "json \<Rightarrow> thrown + json option" where
  "content_of chunk =
     (case get_prop chunk (str ''choices'') of
        Inl e \<Rightarrow> Inl e
      | Inr choices \<Rightarrow>
          (case get_member choices (str ''0'') of
             Inl e \<Rightarrow> Inl e
           | Inr first \<Rightarrow>
               (case get_optional first (str ''delta'') of
                  Inl e \<Rightarrow> Inl e
                | Inr delta \<Rightarrow> get_optional delta (str ''content''))))"

text \<open>What one line of the \<open>for\<close> loop does: it returns from the generator, yields a
  fragment, or does nothing (no \<open>data: \<close> prefix, a payload that does not parse or whose
  reading throws, both caught, or no truthy content).\<close>

datatype line_effect = Return | Yield json | Nothing

definition process_line :: "jstring \<Rightarrow> line_effect" where
  "process_line line =
     (if startsWith line (str ''data: '')
      then (let data = drop 6 line
            in if data = str ''[DONE]'' then Return
               else (case JSON_parse data of
                       None \<Rightarrow> Nothing
                     | Some chunk \<Rightarrow>
                         (case content_of chunk of
                            Inl e \<Rightarrow> Nothing
                          | Inr None \<Rightarrow> Nothing
                          | Inr (Some content) \<Rightarrow>
                              if truthy content then Yield content else Nothing)))
      else Nothing)"

text \<open>The \<open>for\<close> loop over the lines: the fragments yielded, and whether it returned.\<close>

fun process_lines :: "jstring list \<Rightarrow> json list \<times> bool" where
  "process_lines [] = ([], False)"
| "process_lines (line # lines) =
     (case process_line line of
        Return \<Rightarrow> ([], True)
      | Yield content \<Rightarrow> (let (ys, returned) = process_lines lines in (content # ys, returned))
      | Nothing \<Rightarrow> process_lines lines)"

text \<open>
  The source of the stream: what each \<open>reader.read()\<close> gives, a chunk of bytes or a
  rejection; after the last entry the reader reports \<open>done\<close>.
\<close>

datatype read_result = Chunk "byte list" | ReadRejected jstring jstring

datatype outcome = Completed | Threw thrown

text \<open>What a run of the generator to its end does: the fragments it yields in order, how
  it ends, and how many times it called \<open>reader.read()\<close>.\<close>

record stream_result =
  fragments :: "json list"
  outcome :: outcome
  reads_made :: nat

text \<open>The \<open>while (true)\<close> loop, from the state of the decoder and the buffer.\<close>

fun stream_loop :: "decoder_state \<Rightarrow> jstring \<Rightarrow> read_result list \<Rightarrow> stream_result" where
  "stream_loop d buffer [] = \<lparr> fragments = [], outcome = Completed, reads_made = 1 \<rparr>"
| "stream_loop d buffer (ReadRejected name msg # rest) =
     \<lparr> fragments = [], outcome = Threw (Rejection name msg), reads_made = 1 \<rparr>"
| "stream_loop d buffer (Chunk val # rest) =
     (let (d', text) = decode d val;
          buffer = buffer @ text;
          lines = split_nl buffer;
          (buffer, lines) = pop_buffer lines;
          (ys, returned) = process_lines lines
      in if returned then \<lparr> fragments = ys, outcome = Completed, reads_made = 1 \<rparr>
         else (let r = stream_loop d' buffer rest
               in r\<lparr> fragments := ys @ fragments r, reads_made := Suc (reads_made r) \<rparr>))"

text \<open>The decimal digits of a number, as a template literal prints an integer.\<close>

fun decimal :: "nat \<Rightarrow> jstring" where
  "decimal n = (if n < 10 then [48 + n] else decimal (n div 10) @ [48 + n mod 10])"

text \<open>
  The reply to the request: \<open>fetch\<close> rejects, or resolves to a response with \<open>ok\<close>,
  \<open>status\<close>, what \<open>response.json()\<close> resolves to (\<open>None\<close> when it rejects), whether
  \<open>response.body\<close> is there, and the reads of its reader.
\<close>

record response =
  ok :: bool
  status :: nat
  json_body :: "json option"
  has_body :: bool
  reads :: "read_result list"

datatype fetch_result = FetchRejected jstring jstring | Resolved response

text \<open>\<open>error.error?.message || `Chat request failed: ${response.status}`\<close>, where \<open>error\<close> is
  the body as JSON, or \<open>{}\<close> when there is none.\<close>

definition error_message :: "response \<Rightarrow> thrown + json" where
  "error_message r =
     (let error = (case json_body r of None \<Rightarrow> JObject [] | Some e \<Rightarrow> e)
      in case get_prop error (str ''error'') of
           Inl e \<Rightarrow> Inl e
         | Inr inner \<Rightarrow>
             (case get_optional inner (str ''message'') of
                Inl e \<Rightarrow> Inl e
              | Inr (Some m) \<Rightarrow>
                  if truthy m then Inr m
                  else Inr (JString (str ''Chat request failed: '' @ decimal (status r)))
              | Inr None \<Rightarrow> Inr (JString (str ''Chat request failed: '' @ decimal (status r)))))"

definition streamChat :: "fetch_result \<Rightarrow> stream_result" where
  "streamChat reply =
     (case reply of
        FetchRejected name msg \<Rightarrow>
          \<lparr> fragments = [], outcome = Threw (Rejection name msg), reads_made = 0 \<rparr>
      | Resolved r \<Rightarrow>
          if \<not> ok r
          then (case error_message r of
                  Inl e \<Rightarrow> \<lparr> fragments = [], outcome = Threw e, reads_made = 0 \<rparr>
                | Inr m \<Rightarrow> \<lparr> fragments = [], outcome = Threw (NewError m), reads_made = 0 \<rparr>)
          else if \<not> has_body r
          then \<lparr> fragments = [],
                 outcome = Threw (NewError (JString (str ''Response body is not readable''))),
                 reads_made = 0 \<rparr>
          else stream_loop new_TextDecoder [] (reads r))"


section \<open>Notions for stating the decoder's properties\<close>

text \<open>The strings that the successive \<open>decode\<close> calls return for a list of chunks, and the
  state of the decoder after them.\<close>

fun decode_all :: "decoder_state \<Rightarrow> byte list list \<Rightarrow> jstring list" where
  "decode_all d [] = []"
| "decode_all d (v # vs) = (let (d', text) = decode d v in text # decode_all d' vs)"

fun decoder_after :: "decoder_state \<Rightarrow> byte list list \<Rightarrow> decoder_state" where
  "decoder_after d [] = d"
| "decoder_after d (v # vs) = decoder_after (fst (decode d v)) vs"

text \<open>The lines of a text that a line feed ends, and the text of a list of lines, each
  ended by a line feed.\<close>

definition complete_lines :: "jstring \<Rightarrow> jstring list" where
  "complete_lines text = butlast (split_nl text)"

definition lines_text :: "jstring list \<Rightarrow> jstring" where
  "lines_text ls = concat (map (\<lambda>l. l @ [10]) ls)"

text \<open>A content event: a line \<open>data: \<close> and a JSON payload whose
  \<open>choices[0].delta.content\<close> is the given, truthy, content.\<close>

definition content_event :: "jstring \<Rightarrow> json \<Rightarrow> bool" where
  "content_event line content =
     (startsWith line (str ''data: '') \<and> 10 \<notin> set line \<and> drop 6 line \<noteq> str ''[DONE]''
      \<and> (case JSON_parse (drop 6 line) of
            None \<Rightarrow> False
          | Some chunk \<Rightarrow> content_of chunk = Inr (Some content) \<and> truthy content))"

text \<open>The UTF-8 bytes of an ASCII literal, and a response that succeeded with a body and
  the given reads.\<close>

definition ascii_bytes :: "string \<Rightarrow> byte list" where
  "ascii_bytes s = map of_char s"

definition ok_response :: "read_result list \<Rightarrow> fetch_result" where
  "ok_response rs =
     Resolved \<lparr> ok = True, status = 200, json_body = None, has_body = True, reads = rs \<rparr>"

text \<open>The event line of the first testable property, with its line feed, as bytes.\<close>

definition hi_event :: "byte list" where
  "hi_event = ascii_bytes ''data: {\"choices\":[{\"delta\":{\"content\":\"Hi\"}}]}'' @ [10]"


section \<open>The conversation orchestrator\<close>

text \<open>The texts of the chat are strings of 8-bit code units, as in the emotion detector,
  which reads them.\<close>

datatype Role = System | User | Assistant

record ChatMessage =
  role :: Role
  content :: string

text \<open>A message of the store: a chat message with an identifier and a time.\<close>

record Message = ChatMessage +
  msg_id :: string
  timestamp :: nat

datatype PersonalityLevel = Playful | Balanced | Professional

text \<open>A call of \<open>streamChat\<close>: the key, the model's identifier and the messages.\<close>

record Request =
  req_apiKey :: string
  req_model :: string
  req_messages :: "ChatMessage list"

text \<open>
  The state the submission handler reads and writes: the store (\<open>messages\<close>,
  \<open>isStreaming\<close>, \<open>buddyMood\<close>, \<open>apiKey\<close>, the identifier of \<open>selectedModel\<close>, \<open>userName\<close>,
  \<open>personality\<close>), the component (\<open>input\<close>, \<open>isLoading\<close>), and what it did to the outside:
  the messages saved to the database, the calls of \<open>streamChat\<close>, and the number of
  timers that were set to return the mood to \<open>idle\<close> and have not run out yet
  (\<open>idle_timers\<close>; a timer is never cleared).
\<close>

record ChatState =
  messages :: "Message list"
  isStreaming :: bool
  buddyMood :: BuddyMood
  apiKey :: "string option"
  selectedModel :: "string option"
  userName :: "string option"
  personality :: PersonalityLevel
  input :: string
  isLoading :: bool
  abortController :: bool
  saved :: "ChatMessage list"
  requests :: "Request list"
  idle_timers :: nat

text \<open>An exception, by \<open>name\<close> and \<open>message\<close>.\<close>

datatype exn = Exn (exn_name: string) (exn_message: string)

datatype stream_end = Finished | Failed exn

text \<open>
  What the outside gives to one submission: the three identifiers of
  \<open>crypto.randomUUID()\<close>, the three times of \<open>Date.now()\<close>, whether each \<open>saveMessage\<close>
  rejects, and what the generator of \<open>streamChat\<close> does: the fragments it yields, as the
  strings \<open>+=\<close> appends, and how it ends (an abort ends it with an exception named
  \<open>AbortError\<close>).

  The handler waits at each \<open>await\<close>, and while it waits the timers of earlier turns can
  run out. Its waits are numbered in their order: wait 0 for saving the user's message,
  waits 1 to \<open>n\<close> for the \<open>n\<close> fragments of the stream, wait \<open>n + 1\<close> for the end of the
  stream, and wait \<open>n + 2\<close> for saving the assistant's message. \<open>timers_elapsed\<close> gives, for
  each wait in this order, how many timers run out during it (none for the waits past
  the end of the list).
\<close>

record Turn =
  userMsgId :: string
  assistantMsgId :: string
  errorMsgId :: string
  now_user :: nat
  now_assistant :: nat
  now_error :: nat
  user_save :: "exn option"
  stream_fragments :: "string list"
  stream_end :: stream_end
  assistant_save :: "exn option"
  timers_elapsed :: "nat list"

definition elapsed :: "Turn \<Rightarrow> nat \<Rightarrow> nat" where
  "elapsed t i = (if i < length (timers_elapsed t) then timers_elapsed t ! i else 0)"

text \<open>\<open>String.prototype.trim\<close> on 8-bit code units: tab, line feed, vertical tab, form
  feed, carriage return, space and no-break space go from both ends.\<close>

definition is_space :: "char \<Rightarrow> bool" where
  "is_space c = ((of_char c :: nat) \<in> {9, 10, 11, 12, 13, 32, 160})"

definition trim :: "string \<Rightarrow> string" where
  "trim s = rev (dropWhile is_space (rev (dropWhile is_space s)))"

text \<open>\<open>xs.slice(-n)\<close>: the last \<open>n\<close> elements, or all when there are fewer.\<close>

definition slice_last :: "nat \<Rightarrow> 'a list \<Rightarrow> 'a list" where
  "slice_last n xs = drop (length xs - n) xs"

definition personalityTraits :: "PersonalityLevel \<Rightarrow> string" where
  "personalityTraits p =
     (case p of
        Playful \<Rightarrow> ''You are playful, use emojis often, and have a fun, casual tone.''
      | Balanced \<Rightarrow> ''You are friendly and helpful with a warm, conversational tone.''
      | Professional \<Rightarrow> ''You are professional and concise while remaining warm.'')"

definition buildSystemPrompt :: "PersonalityLevel \<Rightarrow> string option \<Rightarrow> string" where
  "buildSystemPrompt p name =
     ''You are Buddy, a friendly AI companion. '' @ personalityTraits p @ [CHR 0x0A]
     @ (case name of
          None \<Rightarrow> []
        | Some n \<Rightarrow>
            if n = [] then []
            else ''The user'' @ [CHR 0x27] @ ''s name is '' @ n @ ''. Use their name occasionally.'')
     @ [CHR 0x0A]
     @ ''You remember previous conversations and care about the user'' @ [CHR 0x27]
     @ ''s wellbeing.'' @ [CHR 0x0A]
     @ ''Keep responses concise but thoughtful. Show genuine interest in the user.''"

definition addMessage :: "Message \<Rightarrow> ChatState \<Rightarrow> ChatState" where
  "addMessage m s = s\<lparr>messages := messages s @ [m]\<rparr>"

definition setBuddyMood :: "BuddyMood \<Rightarrow> ChatState \<Rightarrow> ChatState" where
  "setBuddyMood m s = s\<lparr>buddyMood := m\<rparr>"

definition to_chat :: "Message \<Rightarrow> ChatMessage" where
  "to_chat m = \<lparr> role = role m, content = content m \<rparr>"

text \<open>The conversation history that is sent.\<close>

definition chatMessages :: "ChatState \<Rightarrow> string \<Rightarrow> ChatMessage list" where
  "chatMessages s userMessage =
     [\<lparr> role = System, content = buildSystemPrompt (personality s) (userName s) \<rparr>]
     @ map to_chat (slice_last 20 (messages s))
     @ [\<lparr> role = User, content = userMessage \<rparr>]"

text \<open>A timer that runs out calls \<open>setBuddyMood('idle')\<close>; only a timer that was set and has
  not run out can do so. \<open>await_point k\<close> is a wait of the handler during which \<open>k\<close> timers
  run out.\<close>

definition idle_timer_fires :: "ChatState \<Rightarrow> ChatState" where
  "idle_timer_fires s =
     (if idle_timers s = 0 then s
      else setBuddyMood Idle (s\<lparr>idle_timers := idle_timers s - 1\<rparr>))"

fun await_point :: "nat \<Rightarrow> ChatState \<Rightarrow> ChatState" where
  "await_point 0 s = s"
| "await_point (Suc k) s = await_point k (idle_timer_fires s)"

text \<open>The \<open>for await\<close> loop, for each fragment in turn: the wait for the fragment (wait
  \<open>i\<close>), then the body: the text so far, the mood when the detector gives another than
  \<open>talking\<close>, and the text put into the message with the assistant's identifier.\<close>

fun consume :: "Turn \<Rightarrow> nat \<Rightarrow> string \<Rightarrow> string list \<Rightarrow> ChatState \<Rightarrow> string \<times> ChatState" where
  "consume t i assistantContent [] s = (assistantContent, s)"
| "consume t i assistantContent (chunk # rest) s =
     (let s = await_point (elapsed t i) s;
          assistantContent = assistantContent @ chunk;
          detectedMood = analyzeStreamingEmotion assistantContent Talking;
          s = (if detectedMood \<noteq> Talking then setBuddyMood detectedMood s else s);
          s = s\<lparr>messages :=
                  map (\<lambda>m. if msg_id m = assistantMsgId t
                           then m\<lparr>content := assistantContent\<rparr> else m)
                    (messages s)\<rparr>
      in consume t (Suc i) assistantContent rest s)"

text \<open>The \<open>catch\<close> block and the \<open>finally\<close> block.\<close>

definition catch_block :: "Turn \<Rightarrow> exn \<Rightarrow> ChatState \<Rightarrow> ChatState" where
  "catch_block t error s =
     (if exn_name error \<noteq> ''AbortError''
      then addMessage
             \<lparr> role = Assistant,
               content = ''Oops, something went wrong: '' @ exn_message error,
               msg_id = errorMsgId t, timestamp = now_error t \<rparr>
             (setBuddyMood Confused s)
      else s)"

definition finally_block :: "ChatState \<Rightarrow> ChatState" where
  "finally_block s = s\<lparr>isLoading := False, isStreaming := False, abortController := False\<rparr>"

text \<open>The \<open>try\<close> block up to the end of the \<open>for await\<close> loop: the assistant's text and
  the state when the stream has ended, in whatever way, after the wait for its end.\<close>

definition stream_phase :: "Turn \<Rightarrow> ChatState \<Rightarrow> ChatMessage list \<Rightarrow> string \<times> ChatState" where
  "stream_phase t s history =
     (let s = setBuddyMood Talking (s\<lparr>isStreaming := True\<rparr>);
          s = addMessage \<lparr> role = Assistant, content = [], msg_id = assistantMsgId t,
                           timestamp = now_assistant t \<rparr> s;
          s = s\<lparr>requests := requests s
                  @ [\<lparr> req_apiKey = (case apiKey s of None \<Rightarrow> [] | Some k \<Rightarrow> k),
                       req_model = (case selectedModel s of None \<Rightarrow> [] | Some m \<Rightarrow> m),
                       req_messages = history \<rparr>]\<rparr>;
          (assistantContent, s) = consume t 1 [] (stream_fragments t) s
      in (assistantContent, await_point (elapsed t (length (stream_fragments t) + 1)) s))"

text \<open>The \<open>try\<close> block: its state when it ends, and the exception when it throws.\<close>

definition try_block :: "Turn \<Rightarrow> ChatState \<Rightarrow> ChatMessage list \<Rightarrow> ChatState \<times> exn option" where
  "try_block t s history =
     (let (assistantContent, s) = stream_phase t s history
      in case stream_end t of
           Failed error \<Rightarrow> (s, Some error)
         | Finished \<Rightarrow>
             (let s = await_point (elapsed t (length (stream_fragments t) + 2)) s
              in case assistant_save t of
                Some error \<Rightarrow> (s, Some error)
              | None \<Rightarrow>
                  (let s = s\<lparr>saved := saved s
                              @ [\<lparr> role = Assistant, content = assistantContent \<rparr>]\<rparr>;
                       finalMood = analyzeStreamingEmotion assistantContent Happy;
                       s = setBuddyMood finalMood s
                   in (s\<lparr>idle_timers := Suc (idle_timers s)\<rparr>, None))))"

text \<open>The handler up to the end of the wait for saving the user's message: the input
  cleared, the mood \<open>thinking\<close>, the user's message added.\<close>

definition until_user_save :: "Turn \<Rightarrow> ChatState \<Rightarrow> ChatState" where
  "until_user_save t s =
     (let userMessage = trim (input s);
          s1 = setBuddyMood Thinking (s\<lparr>input := [], isLoading := True\<rparr>);
          s2 = addMessage \<lparr> role = User, content = userMessage, msg_id = userMsgId t,
                            timestamp = now_user t \<rparr> s1
      in await_point (elapsed t 0) s2)"

text \<open>The handler up to the \<open>try\<close>, when saving the user's message succeeds: the message
  is saved, and there is a new abort controller.\<close>

definition before_try :: "Turn \<Rightarrow> ChatState \<Rightarrow> ChatState" where
  "before_try t s =
     (let s3 = until_user_save t s
      in s3\<lparr>saved := saved s3 @ [\<lparr> role = User, content = trim (input s) \<rparr>],
            abortController := True\<rparr>)"

text \<open>Whether the handler goes on: the input is not blank, there are a key and a model,
  and no turn is loading.\<close>

definition can_submit :: "ChatState \<Rightarrow> bool" where
  "can_submit s =
     (trim (input s) \<noteq> [] \<and> apiKey s \<noteq> None \<and> apiKey s \<noteq> Some [] \<and> selectedModel s \<noteq> None
      \<and> \<not> isLoading s)"

text \<open>One submission. \<open>chatMessages\<close> is built from the messages the handler was created
  with, those before the new user message. When saving the user's message rejects, the
  handler ends there, before the \<open>try\<close>.\<close>

definition handleSubmit :: "Turn \<Rightarrow> ChatState \<Rightarrow> ChatState" where
  "handleSubmit t s =
     (if \<not> can_submit s then s
      else (case user_save t of
              Some error \<Rightarrow> until_user_save t s
            | None \<Rightarrow>
                (let history = chatMessages s (trim (input s));
                     (s4, thrown) = try_block t (before_try t s) history;
                     s5 = (case thrown of None \<Rightarrow> s4 | Some error \<Rightarrow> catch_block t error s4)
                 in finally_block s5)))"



section \<open>Notions for stating the orchestrator's properties\<close>

text \<open>The assistant's text after each fragment, and the moods the detector gives for
  them during streaming.\<close>

fun accumulated :: "string \<Rightarrow> string list \<Rightarrow> string list" where
  "accumulated acc [] = []"
| "accumulated acc (chunk # rest) = (acc @ chunk) # accumulated (acc @ chunk) rest"

definition inferred_moods :: "string list \<Rightarrow> BuddyMood list" where
  "inferred_moods frs = map (\<lambda>t. analyzeStreamingEmotion t Talking) (accumulated [] frs)"

text \<open>The mood that streaming leaves: the last inferred mood other than \<open>talking\<close>, or
  \<open>talking\<close>.\<close>

definition streamed_mood :: "string list \<Rightarrow> BuddyMood" where
  "streamed_mood frs = last (Talking # filter (\<lambda>d. d \<noteq> Talking) (inferred_moods frs))"

text \<open>The state of a turn at the moment its stream has ended, before the handler goes
  on or catches the exception.\<close>

definition state_at_stream_end :: "Turn \<Rightarrow> ChatState \<Rightarrow> ChatState" where
  "state_at_stream_end t s =
     snd (stream_phase t (before_try t s) (chatMessages s (trim (input s))))"

text \<open>The text of the message with a given identifier is replaced.\<close>

definition set_content :: "string \<Rightarrow> string \<Rightarrow> Message \<Rightarrow> Message" where
  "set_content aid t m = (if msg_id m = aid then m\<lparr>content := t\<rparr> else m)"

text \<open>The three messages a turn can add to the conversation.\<close>

definition user_message :: "Turn \<Rightarrow> ChatState \<Rightarrow> Message" where
  "user_message t s =
     \<lparr> role = User, content = trim (input s), msg_id = userMsgId t, timestamp = now_user t \<rparr>"

definition assistant_message :: "Turn \<Rightarrow> Message" where
  "assistant_message t =
     \<lparr> role = Assistant, content = concat (stream_fragments t), msg_id = assistantMsgId t,
       timestamp = now_assistant t \<rparr>"

definition error_indicator :: "Turn \<Rightarrow> exn \<Rightarrow> Message" where
  "error_indicator t e =
     \<lparr> role = Assistant, content = ''Oops, something went wrong: '' @ exn_message e,
       msg_id = errorMsgId t, timestamp = now_error t \<rparr>"

text \<open>The identifier of the assistant's message is a new one.\<close>

definition fresh_assistant_id :: "Turn \<Rightarrow> ChatState \<Rightarrow> bool" where
  "fresh_assistant_id t s =
     (assistantMsgId t \<noteq> userMsgId t \<and> list_all (\<lambda>m. msg_id m \<noteq> assistantMsgId t) (messages s))"

text \<open>Examples: a conversation of two prior messages with the input of the end-to-end
  scenario, padded with blanks; a turn whose stream completes; turns that are cancelled
  after one fragment; and a turn whose stream fails after one fragment.\<close>

definition example_state :: ChatState where
  "example_state =
     \<lparr> messages =
         [\<lparr> role = User, content = ''Hello'', msg_id = ''m1'', timestamp = 1 \<rparr>,
          \<lparr> role = Assistant, content = ''Hi there'', msg_id = ''m2'', timestamp = 2 \<rparr>],
       isStreaming = False, buddyMood = Idle, apiKey = Some ''key'',
       selectedModel = Some ''model'', userName = None, personality = Balanced,
       input = ''  How are you?  '', isLoading = False, abortController = False, saved = [],
       requests = [],
       idle_timers = 0 \<rparr>"

text \<open>The same state after eleven exchanges like the first, 22 prior messages.\<close>

definition long_history_state :: ChatState where
  "long_history_state =
     example_state\<lparr>messages := concat (replicate 11 (messages example_state))\<rparr>"

definition example_turn :: Turn where
  "example_turn =
     \<lparr> userMsgId = ''u'', assistantMsgId = ''a'', errorMsgId = ''e'', now_user = 3,
       now_assistant = 4, now_error = 5, user_save = None,
       stream_fragments = [''I am '', ''fine.''], stream_end = Finished,
       assistant_save = None, timers_elapsed = [] \<rparr>"

definition confused_text :: string where
  "confused_text =
     ''Hmm, that'' @ [CHR 0x27] @ ''s strange. I'' @ [CHR 0x27]
       @ ''m not sure what you mean by that.''"

definition cancelled_turn :: Turn where
  "cancelled_turn =
     example_turn\<lparr> stream_fragments := [''I am ''],
                    stream_end := Failed (Exn ''AbortError'' ''The operation was aborted.'') \<rparr>"

definition cancelled_confused_turn :: Turn where
  "cancelled_confused_turn =
     example_turn\<lparr> stream_fragments := [confused_text],
                    stream_end := Failed (Exn ''AbortError'' ''The operation was aborted.'') \<rparr>"

definition failed_turn :: Turn where
  "failed_turn =
     example_turn\<lparr> stream_fragments := [''I am ''],
                    stream_end := Failed (Exn ''TypeError'' ''network error'') \<rparr>"

text \<open>The example state just after an earlier turn has ended: its mood is \<open>happy\<close> and its
  timer is running. And the cancelled turn in which that timer runs out during the wait
  for the end of the stream (wait 2).\<close>

definition pending_timer_state :: ChatState where
  "pending_timer_state = example_state\<lparr>buddyMood := Happy, idle_timers := 1\<rparr>"

definition cancelled_timer_turn :: Turn where
  "cancelled_timer_turn = cancelled_turn\<lparr>timers_elapsed := [0, 0, 1]\<rparr>"

section \<open>Facts about the string operations\<close>

lemma startsWith_iff: "startsWith s p \<longleftrightarrow> (\<exists>r. s = p @ r)"
  by (induction s p rule: startsWith.induct) auto

lemma includes_str_iff: "includes_str t s \<longleftrightarrow> (\<exists>pre post. t = pre @ s @ post)"
proof (induction t)
  case Nil
  then show ?case by simp
next
  case (Cons c cs)
  show ?case
  proof
    assume "includes_str (c # cs) s"
    then consider "startsWith (c # cs) s" | "includes_str cs s" by auto
    then show "\<exists>pre post. c # cs = pre @ s @ post"
    proof cases
      case 1
      then obtain r where "c # cs = s @ r" by (auto simp: startsWith_iff)
      then have "c # cs = [] @ s @ r" by simp
      then show ?thesis by blast
    next
      case 2
      then obtain pre post where "cs = pre @ s @ post" using Cons.IH by auto
      then have "c # cs = (c # pre) @ s @ post" by simp
      then show ?thesis by blast
    qed
  next
    assume "\<exists>pre post. c # cs = pre @ s @ post"
    then obtain pre post where e: "c # cs = pre @ s @ post" by auto
    show "includes_str (c # cs) s"
    proof (cases pre)
      case Nil
      then have "startsWith (c # cs) s" using e by (auto simp: startsWith_iff)
      then show ?thesis by simp
    next
      case (Cons a pre')
      then have "cs = pre' @ s @ post" using e by simp
      then have "includes_str cs s" using Cons.IH by blast
      then show ?thesis by simp
    qed
  qed
qed

subsection \<open>Case folding\<close>

lemma has_lower_upper: "has_lower n \<Longrightarrow> has_upper (n + 32)"
  unfolding has_lower_def has_upper_def by arith

lemma has_upper_lower: "has_upper n \<Longrightarrow> 32 \<le> n \<and> has_lower (n - 32)"
  unfolding has_lower_def has_upper_def by arith

lemma has_lower_not_upper: "has_lower n \<Longrightarrow> \<not> has_upper n \<and> n \<noteq> 255 \<and> n \<noteq> 181"
  unfolding has_lower_def has_upper_def by arith

lemma of_char_lower_char:
  "(of_char (lower_char c) :: nat) = (if has_lower (of_char c) then of_char c + 32 else of_char c)"
proof -
  have "(of_char c :: nat) < 256" by simp
  moreover have "has_lower (of_char c) \<Longrightarrow> (of_char c :: nat) + 32 < 256"
    unfolding has_lower_def by arith
  ultimately show ?thesis
    unfolding lower_char_def Let_def has_lower_def[symmetric] by simp
qed

lemma lower_char_not_has_lower: "\<not> has_lower (of_char (lower_char c))"
  unfolding of_char_lower_char using has_lower_upper has_lower_not_upper by auto

lemma canonicalize_alt: "canonicalize c = fold_back (of_char c)"
  unfolding canonicalize_def fold_back_def has_upper_def Let_def by simp

lemma canonicalize_fold_back: "canonicalize c = fold_back (of_char (lower_char c))"
proof (cases "has_lower (of_char c)")
  case True
  then show ?thesis
    unfolding of_char_lower_char canonicalize_alt
    using has_lower_upper[OF True] has_lower_not_upper[OF True] by (simp add: fold_back_def)
next
  case False
  then show ?thesis
    unfolding of_char_lower_char canonicalize_alt by simp
qed

lemma fold_back_inj:
  assumes "\<not> has_lower x" "\<not> has_lower y" "x < 256" "y < 256" "fold_back x = fold_back y"
  shows "x = y"
proof (cases "has_upper x")
  case True
  note ux = this
  show ?thesis
  proof (cases "has_upper y")
    case True
    then have "x - 32 = y - 32" "32 \<le> x" "32 \<le> y"
      using ux assms(5) has_upper_lower[of x] has_upper_lower[of y]
      unfolding fold_back_def by simp_all
    then show ?thesis by arith
  next
    case False
    then have "fold_back y = y \<or> fold_back y \<ge> 256" unfolding fold_back_def by simp
    moreover have "fold_back x = x - 32" "has_lower (x - 32)" "x - 32 < 256"
      using ux has_upper_lower[of x] assms(3) unfolding fold_back_def by simp_all
    ultimately show ?thesis using assms(2,5) by auto
  qed
next
  case False
  note nx = this
  show ?thesis
  proof (cases "has_upper y")
    case True
    then have "fold_back y = y - 32" "has_lower (y - 32)" "y - 32 < 256"
      using has_upper_lower[of y] assms(4) unfolding fold_back_def by simp_all
    moreover have "fold_back x = x \<or> fold_back x \<ge> 256" using nx unfolding fold_back_def by simp
    ultimately show ?thesis using assms(1,5) by auto
  next
    case False
    then show ?thesis using nx assms(3,4,5) unfolding fold_back_def
      by (simp split: if_splits)
  qed
qed

lemma canonicalize_lower: "canonicalize c = canonicalize k \<longleftrightarrow> lower_char c = lower_char k"
proof
  assume "canonicalize c = canonicalize k"
  then have "fold_back (of_char (lower_char c)) = fold_back (of_char (lower_char k))"
    by (simp add: canonicalize_fold_back)
  then have "(of_char (lower_char c) :: nat) = of_char (lower_char k)"
    using fold_back_inj[OF lower_char_not_has_lower lower_char_not_has_lower] by simp
  then show "lower_char c = lower_char k" by simp
next
  assume "lower_char c = lower_char k"
  then show "canonicalize c = canonicalize k" by (simp add: canonicalize_fold_back)
qed

lemma canonicalize_word: "canonicalize c = canonicalize k \<Longrightarrow> is_word_char c = is_word_char k"
  by (auto simp: canonicalize_def is_word_char_def Let_def split: if_splits)

subsection \<open>The keyword pattern\<close>

lemma prev_after_append: "prev_after (prev_after prev xs) ys = prev_after prev (xs @ ys)"
  by (simp add: prev_after_def)

lemma match_here_iff:
  "match_here kw prev rest = Some (prev', rest') \<longleftrightarrow>
     (\<exists>mid. rest = mid @ rest' \<and> map canonicalize mid = map canonicalize kw
            \<and> prev' = prev_after prev mid)"
proof (induction kw prev rest rule: match_here.induct)
  case (1 prev rest)
  then show ?case by (auto simp: prev_after_def)
next
  case (2 k ks prev)
  then show ?case by auto
next
  case (3 k ks prev c cs)
  show ?case
  proof (cases "canonicalize c = canonicalize k")
    case False
    then show ?thesis by (auto simp: Cons_eq_append_conv)
  next
    case True
    have "(\<exists>mid. c # cs = mid @ rest' \<and> map canonicalize mid = map canonicalize (k # ks)
              \<and> prev' = prev_after prev mid)
          \<longleftrightarrow> (\<exists>mid'. cs = mid' @ rest' \<and> map canonicalize mid' = map canonicalize ks
              \<and> prev' = prev_after (is_word_char c) mid')" (is "?L \<longleftrightarrow> ?R")
    proof
      assume ?L
      then obtain mid where m: "c # cs = mid @ rest'" "map canonicalize mid = map canonicalize (k # ks)"
        "prev' = prev_after prev mid" by auto
      then obtain mid' where mid: "mid = c # mid'" by (cases mid) auto
      then have "prev_after prev mid = prev_after (is_word_char c) mid'"
        by (simp add: prev_after_def)
      then show ?R using m mid by auto
    next
      assume ?R
      then obtain mid' where m: "cs = mid' @ rest'" "map canonicalize mid' = map canonicalize ks"
        "prev' = prev_after (is_word_char c) mid'" by auto
      have "prev_after prev (c # mid') = prev_after (is_word_char c) mid'"
        by (simp add: prev_after_def)
      then have "c # cs = (c # mid') @ rest' \<and> map canonicalize (c # mid') = map canonicalize (k # ks)
           \<and> prev' = prev_after prev (c # mid')" using m True by simp
      then show ?L by blast
    qed
    then show ?thesis using True 3 by simp
  qed
qed

lemma match_at_iff:
  "match_at kw prev rest \<longleftrightarrow>
     (\<exists>mid post. rest = mid @ post \<and> map canonicalize mid = map canonicalize kw
        \<and> word_boundary prev rest \<and> word_boundary (prev_after prev mid) post)"
proof
  assume "match_at kw prev rest"
  then obtain prev' rest' where m: "match_here kw prev rest = Some (prev', rest')"
    "word_boundary prev rest" "word_boundary prev' rest'"
    unfolding match_at_def by (auto split: option.splits)
  then show "\<exists>mid post. rest = mid @ post \<and> map canonicalize mid = map canonicalize kw
        \<and> word_boundary prev rest \<and> word_boundary (prev_after prev mid) post"
    using match_here_iff[of kw prev rest prev' rest'] by auto
next
  assume "\<exists>mid post. rest = mid @ post \<and> map canonicalize mid = map canonicalize kw
        \<and> word_boundary prev rest \<and> word_boundary (prev_after prev mid) post"
  then obtain mid post where m: "rest = mid @ post" "map canonicalize mid = map canonicalize kw"
        "word_boundary prev rest" "word_boundary (prev_after prev mid) post" by blast
  then have "match_here kw prev rest = Some (prev_after prev mid, post)"
    using match_here_iff[of kw prev rest "prev_after prev mid" post] by blast
  then show "match_at kw prev rest" using m unfolding match_at_def by simp
qed

lemma regex_search_iff:
  "regex_search kw prev s \<longleftrightarrow>
     (\<exists>pre mid post. s = pre @ mid @ post \<and> map canonicalize mid = map canonicalize kw
        \<and> word_boundary (prev_after prev pre) (mid @ post)
        \<and> word_boundary (prev_after prev (pre @ mid)) post)"
proof (induction s arbitrary: prev)
  case Nil
  have "regex_search kw prev [] \<longleftrightarrow>
     (map canonicalize [] = map canonicalize kw \<and> word_boundary prev [] \<and> word_boundary prev [])"
    by (simp add: match_at_iff prev_after_def)
  also have "\<dots> \<longleftrightarrow> (\<exists>pre mid post. [] = pre @ mid @ post \<and> map canonicalize mid = map canonicalize kw
        \<and> word_boundary (prev_after prev pre) (mid @ post)
        \<and> word_boundary (prev_after prev (pre @ mid)) post)"
    by (simp add: prev_after_def)
  finally show ?case .
next
  case (Cons c cs)
  let ?L = "regex_search kw prev (c # cs)"
  let ?R = "\<exists>pre mid post. c # cs = pre @ mid @ post \<and> map canonicalize mid = map canonicalize kw
        \<and> word_boundary (prev_after prev pre) (mid @ post)
        \<and> word_boundary (prev_after prev (pre @ mid)) post"
  show ?case
  proof
    assume ?L
    then consider "match_at kw prev (c # cs)" | "regex_search kw (is_word_char c) cs" by auto
    then show ?R
    proof cases
      case 1
      then obtain mid post where m: "c # cs = mid @ post" "map canonicalize mid = map canonicalize kw"
        "word_boundary prev (c # cs)" "word_boundary (prev_after prev mid) post"
        unfolding match_at_iff by blast
      have "c # cs = [] @ mid @ post \<and> map canonicalize mid = map canonicalize kw
        \<and> word_boundary (prev_after prev []) (mid @ post)
        \<and> word_boundary (prev_after prev ([] @ mid)) post"
        using m by (simp add: prev_after_def)
      then show ?thesis by blast
    next
      case 2
      then obtain pre mid post where m: "cs = pre @ mid @ post" "map canonicalize mid = map canonicalize kw"
        "word_boundary (prev_after (is_word_char c) pre) (mid @ post)"
        "word_boundary (prev_after (is_word_char c) (pre @ mid)) post"
        using Cons.IH by blast
      have "prev_after (is_word_char c) pre = prev_after prev (c # pre)"
           "prev_after (is_word_char c) (pre @ mid) = prev_after prev ((c # pre) @ mid)"
        by (simp_all add: prev_after_def)
      then have "c # cs = (c # pre) @ mid @ post \<and> map canonicalize mid = map canonicalize kw
        \<and> word_boundary (prev_after prev (c # pre)) (mid @ post)
        \<and> word_boundary (prev_after prev ((c # pre) @ mid)) post" using m by simp
      then show ?thesis by blast
    qed
  next
    assume ?R
    then obtain pre mid post where m: "c # cs = pre @ mid @ post" "map canonicalize mid = map canonicalize kw"
        "word_boundary (prev_after prev pre) (mid @ post)"
        "word_boundary (prev_after prev (pre @ mid)) post" by blast
    show ?L
    proof (cases pre)
      case Nil
      then have "c # cs = mid @ post \<and> map canonicalize mid = map canonicalize kw
        \<and> word_boundary prev (c # cs) \<and> word_boundary (prev_after prev mid) post"
        using m by (simp add: prev_after_def)
      then have "match_at kw prev (c # cs)" unfolding match_at_iff by blast
      then show ?thesis by simp
    next
      case (Cons a pre')
      then have a: "a = c" "cs = pre' @ mid @ post" using m(1) by simp_all
      have "prev_after (is_word_char c) pre' = prev_after prev pre"
           "prev_after (is_word_char c) (pre' @ mid) = prev_after prev (pre @ mid)"
        using Cons a by (simp_all add: prev_after_def)
      then have "cs = pre' @ mid @ post \<and> map canonicalize mid = map canonicalize kw
        \<and> word_boundary (prev_after (is_word_char c) pre') (mid @ post)
        \<and> word_boundary (prev_after (is_word_char c) (pre' @ mid)) post"
        using m a by simp
      then have "regex_search kw (is_word_char c) cs"
        unfolding Cons.IH[of "is_word_char c"] by blast
      then show ?thesis by simp
    qed
  qed
qed


lemma map_canonicalize_lower:
  "map canonicalize xs = map canonicalize ys \<longleftrightarrow> map lower_char xs = map lower_char ys"
proof (induction xs arbitrary: ys)
  case Nil
  then show ?case by auto
next
  case (Cons x xs)
  then show ?case by (cases ys) (auto simp: canonicalize_lower)
qed

lemma map_canonicalize_ends:
  assumes "map canonicalize mid = map canonicalize kw" "kw \<noteq> []"
  shows "mid \<noteq> [] \<and> is_word_char (hd mid) = is_word_char (hd kw)
         \<and> is_word_char (last mid) = is_word_char (last kw)"
proof -
  have ne: "mid \<noteq> []" using assms by auto
  have len: "length mid = length kw" using assms(1) by (rule map_eq_imp_length_eq)
  have "canonicalize (hd mid) = canonicalize (hd kw)"
    using assms ne by (cases mid; cases kw) auto
  moreover have "canonicalize (last mid) = canonicalize (last kw)"
  proof -
    have "last (map canonicalize mid) = last (map canonicalize kw)" using assms(1) by simp
    then show ?thesis using ne assms(2) by (simp add: last_map)
  qed
  ultimately show ?thesis using ne canonicalize_word by blast
qed

lemma regex_test_whole_word:
  assumes "kw \<noteq> []" "is_word_char (hd kw)" "is_word_char (last kw)"
  shows "regex_test kw s \<longleftrightarrow> whole_word_match kw s"
proof -
  have key: "(s = pre @ mid @ post \<and> map canonicalize mid = map canonicalize kw
        \<and> word_boundary (prev_after False pre) (mid @ post)
        \<and> word_boundary (prev_after False (pre @ mid)) post)
     \<longleftrightarrow> (s = pre @ mid @ post
        \<and> map lower_char mid = map lower_char kw
        \<and> (pre = [] \<or> \<not> is_word_char (last pre))
        \<and> (post = [] \<or> \<not> is_word_char (hd post)))" for pre mid post
  proof (cases "map canonicalize mid = map canonicalize kw")
    case False
    then show ?thesis by (simp add: map_canonicalize_lower)
  next
    case True
    then have e: "mid \<noteq> []" "is_word_char (hd mid)" "is_word_char (last mid)"
      using map_canonicalize_ends[OF True assms(1)] assms(2,3) by simp_all
    have b1: "word_boundary (prev_after False pre) (mid @ post) \<longleftrightarrow> (pre = [] \<or> \<not> is_word_char (last pre))"
      using e by (cases mid) (auto simp: word_boundary_def prev_after_def)
    have b2: "word_boundary (prev_after False (pre @ mid)) post \<longleftrightarrow> (post = [] \<or> \<not> is_word_char (hd post))"
      using e by (cases post) (auto simp: word_boundary_def prev_after_def)
    show ?thesis using True b1 b2 by (simp add: map_canonicalize_lower)
  qed
  show ?thesis
    unfolding regex_test_def regex_search_iff whole_word_match_def key ..
qed

subsection \<open>Evaluation on ASCII\<close>

text \<open>The character classes at each printable ASCII character, for evaluating the
  detector on concrete texts.\<close>

lemma is_word_char_ascii:
  "\<not> is_word_char (CHR 0x20)" "\<not> is_word_char (CHR 0x21)" "\<not> is_word_char (CHR 0x22)"
  "\<not> is_word_char (CHR 0x23)" "\<not> is_word_char (CHR 0x24)" "\<not> is_word_char (CHR 0x25)"
  "\<not> is_word_char (CHR 0x26)" "\<not> is_word_char (CHR 0x27)" "\<not> is_word_char (CHR 0x28)"
  "\<not> is_word_char (CHR 0x29)" "\<not> is_word_char (CHR 0x2A)" "\<not> is_word_char (CHR 0x2B)"
  "\<not> is_word_char (CHR 0x2C)" "\<not> is_word_char (CHR 0x2D)" "\<not> is_word_char (CHR 0x2E)"
  "\<not> is_word_char (CHR 0x2F)" "is_word_char (CHR 0x30)" "is_word_char (CHR 0x31)"
  "is_word_char (CHR 0x32)" "is_word_char (CHR 0x33)" "is_word_char (CHR 0x34)"
  "is_word_char (CHR 0x35)" "is_word_char (CHR 0x36)" "is_word_char (CHR 0x37)"
  "is_word_char (CHR 0x38)" "is_word_char (CHR 0x39)" "\<not> is_word_char (CHR 0x3A)"
  "\<not> is_word_char (CHR 0x3B)" "\<not> is_word_char (CHR 0x3C)" "\<not> is_word_char (CHR 0x3D)"
  "\<not> is_word_char (CHR 0x3E)" "\<not> is_word_char (CHR 0x3F)" "\<not> is_word_char (CHR 0x40)"
  "is_word_char (CHR 0x41)" "is_word_char (CHR 0x42)" "is_word_char (CHR 0x43)"
  "is_word_char (CHR 0x44)" "is_word_char (CHR 0x45)" "is_word_char (CHR 0x46)"
  "is_word_char (CHR 0x47)" "is_word_char (CHR 0x48)" "is_word_char (CHR 0x49)"
  "is_word_char (CHR 0x4A)" "is_word_char (CHR 0x4B)" "is_word_char (CHR 0x4C)"
  "is_word_char (CHR 0x4D)" "is_word_char (CHR 0x4E)" "is_word_char (CHR 0x4F)"
  "is_word_char (CHR 0x50)" "is_word_char (CHR 0x51)" "is_word_char (CHR 0x52)"
  "is_word_char (CHR 0x53)" "is_word_char (CHR 0x54)" "is_word_char (CHR 0x55)"
  "is_word_char (CHR 0x56)" "is_word_char (CHR 0x57)" "is_word_char (CHR 0x58)"
  "is_word_char (CHR 0x59)" "is_word_char (CHR 0x5A)" "\<not> is_word_char (CHR 0x5B)"
  "\<not> is_word_char (CHR 0x5C)" "\<not> is_word_char (CHR 0x5D)" "\<not> is_word_char (CHR 0x5E)"
  "is_word_char (CHR 0x5F)" "\<not> is_word_char (CHR 0x60)" "is_word_char (CHR 0x61)"
  "is_word_char (CHR 0x62)" "is_word_char (CHR 0x63)" "is_word_char (CHR 0x64)"
  "is_word_char (CHR 0x65)" "is_word_char (CHR 0x66)" "is_word_char (CHR 0x67)"
  "is_word_char (CHR 0x68)" "is_word_char (CHR 0x69)" "is_word_char (CHR 0x6A)"
  "is_word_char (CHR 0x6B)" "is_word_char (CHR 0x6C)" "is_word_char (CHR 0x6D)"
  "is_word_char (CHR 0x6E)" "is_word_char (CHR 0x6F)" "is_word_char (CHR 0x70)"
  "is_word_char (CHR 0x71)" "is_word_char (CHR 0x72)" "is_word_char (CHR 0x73)"
  "is_word_char (CHR 0x74)" "is_word_char (CHR 0x75)" "is_word_char (CHR 0x76)"
  "is_word_char (CHR 0x77)" "is_word_char (CHR 0x78)" "is_word_char (CHR 0x79)"
  "is_word_char (CHR 0x7A)" "\<not> is_word_char (CHR 0x7B)" "\<not> is_word_char (CHR 0x7C)"
  "\<not> is_word_char (CHR 0x7D)" "\<not> is_word_char (CHR 0x7E)"
  by (simp_all add: is_word_char_def)

lemma canonicalize_ascii:
  "canonicalize (CHR 0x20) = 32" "canonicalize (CHR 0x21) = 33" "canonicalize (CHR 0x22) = 34"
  "canonicalize (CHR 0x23) = 35" "canonicalize (CHR 0x24) = 36" "canonicalize (CHR 0x25) = 37"
  "canonicalize (CHR 0x26) = 38" "canonicalize (CHR 0x27) = 39" "canonicalize (CHR 0x28) = 40"
  "canonicalize (CHR 0x29) = 41" "canonicalize (CHR 0x2A) = 42" "canonicalize (CHR 0x2B) = 43"
  "canonicalize (CHR 0x2C) = 44" "canonicalize (CHR 0x2D) = 45" "canonicalize (CHR 0x2E) = 46"
  "canonicalize (CHR 0x2F) = 47" "canonicalize (CHR 0x30) = 48" "canonicalize (CHR 0x31) = 49"
  "canonicalize (CHR 0x32) = 50" "canonicalize (CHR 0x33) = 51" "canonicalize (CHR 0x34) = 52"
  "canonicalize (CHR 0x35) = 53" "canonicalize (CHR 0x36) = 54" "canonicalize (CHR 0x37) = 55"
  "canonicalize (CHR 0x38) = 56" "canonicalize (CHR 0x39) = 57" "canonicalize (CHR 0x3A) = 58"
  "canonicalize (CHR 0x3B) = 59" "canonicalize (CHR 0x3C) = 60" "canonicalize (CHR 0x3D) = 61"
  "canonicalize (CHR 0x3E) = 62" "canonicalize (CHR 0x3F) = 63" "canonicalize (CHR 0x40) = 64"
  "canonicalize (CHR 0x41) = 65" "canonicalize (CHR 0x42) = 66" "canonicalize (CHR 0x43) = 67"
  "canonicalize (CHR 0x44) = 68" "canonicalize (CHR 0x45) = 69" "canonicalize (CHR 0x46) = 70"
  "canonicalize (CHR 0x47) = 71" "canonicalize (CHR 0x48) = 72" "canonicalize (CHR 0x49) = 73"
  "canonicalize (CHR 0x4A) = 74" "canonicalize (CHR 0x4B) = 75" "canonicalize (CHR 0x4C) = 76"
  "canonicalize (CHR 0x4D) = 77" "canonicalize (CHR 0x4E) = 78" "canonicalize (CHR 0x4F) = 79"
  "canonicalize (CHR 0x50) = 80" "canonicalize (CHR 0x51) = 81" "canonicalize (CHR 0x52) = 82"
  "canonicalize (CHR 0x53) = 83" "canonicalize (CHR 0x54) = 84" "canonicalize (CHR 0x55) = 85"
  "canonicalize (CHR 0x56) = 86" "canonicalize (CHR 0x57) = 87" "canonicalize (CHR 0x58) = 88"
  "canonicalize (CHR 0x59) = 89" "canonicalize (CHR 0x5A) = 90" "canonicalize (CHR 0x5B) = 91"
  "canonicalize (CHR 0x5C) = 92" "canonicalize (CHR 0x5D) = 93" "canonicalize (CHR 0x5E) = 94"
  "canonicalize (CHR 0x5F) = 95" "canonicalize (CHR 0x60) = 96" "canonicalize (CHR 0x61) = 65"
  "canonicalize (CHR 0x62) = 66" "canonicalize (CHR 0x63) = 67" "canonicalize (CHR 0x64) = 68"
  "canonicalize (CHR 0x65) = 69" "canonicalize (CHR 0x66) = 70" "canonicalize (CHR 0x67) = 71"
  "canonicalize (CHR 0x68) = 72" "canonicalize (CHR 0x69) = 73" "canonicalize (CHR 0x6A) = 74"
  "canonicalize (CHR 0x6B) = 75" "canonicalize (CHR 0x6C) = 76" "canonicalize (CHR 0x6D) = 77"
  "canonicalize (CHR 0x6E) = 78" "canonicalize (CHR 0x6F) = 79" "canonicalize (CHR 0x70) = 80"
  "canonicalize (CHR 0x71) = 81" "canonicalize (CHR 0x72) = 82" "canonicalize (CHR 0x73) = 83"
  "canonicalize (CHR 0x74) = 84" "canonicalize (CHR 0x75) = 85" "canonicalize (CHR 0x76) = 86"
  "canonicalize (CHR 0x77) = 87" "canonicalize (CHR 0x78) = 88" "canonicalize (CHR 0x79) = 89"
  "canonicalize (CHR 0x7A) = 90" "canonicalize (CHR 0x7B) = 123" "canonicalize (CHR 0x7C) = 124"
  "canonicalize (CHR 0x7D) = 125" "canonicalize (CHR 0x7E) = 126"
  by (simp_all add: canonicalize_def)

lemma lower_char_ascii:
  "lower_char (CHR 0x20) = CHR 0x20" "lower_char (CHR 0x21) = CHR 0x21"
  "lower_char (CHR 0x22) = CHR 0x22" "lower_char (CHR 0x23) = CHR 0x23"
  "lower_char (CHR 0x24) = CHR 0x24" "lower_char (CHR 0x25) = CHR 0x25"
  "lower_char (CHR 0x26) = CHR 0x26" "lower_char (CHR 0x27) = CHR 0x27"
  "lower_char (CHR 0x28) = CHR 0x28" "lower_char (CHR 0x29) = CHR 0x29"
  "lower_char (CHR 0x2A) = CHR 0x2A" "lower_char (CHR 0x2B) = CHR 0x2B"
  "lower_char (CHR 0x2C) = CHR 0x2C" "lower_char (CHR 0x2D) = CHR 0x2D"
  "lower_char (CHR 0x2E) = CHR 0x2E" "lower_char (CHR 0x2F) = CHR 0x2F"
  "lower_char (CHR 0x30) = CHR 0x30" "lower_char (CHR 0x31) = CHR 0x31"
  "lower_char (CHR 0x32) = CHR 0x32" "lower_char (CHR 0x33) = CHR 0x33"
  "lower_char (CHR 0x34) = CHR 0x34" "lower_char (CHR 0x35) = CHR 0x35"
  "lower_char (CHR 0x36) = CHR 0x36" "lower_char (CHR 0x37) = CHR 0x37"
  "lower_char (CHR 0x38) = CHR 0x38" "lower_char (CHR 0x39) = CHR 0x39"
  "lower_char (CHR 0x3A) = CHR 0x3A" "lower_char (CHR 0x3B) = CHR 0x3B"
  "lower_char (CHR 0x3C) = CHR 0x3C" "lower_char (CHR 0x3D) = CHR 0x3D"
  "lower_char (CHR 0x3E) = CHR 0x3E" "lower_char (CHR 0x3F) = CHR 0x3F"
  "lower_char (CHR 0x40) = CHR 0x40" "lower_char (CHR 0x41) = CHR 0x61"
  "lower_char (CHR 0x42) = CHR 0x62" "lower_char (CHR 0x43) = CHR 0x63"
  "lower_char (CHR 0x44) = CHR 0x64" "lower_char (CHR 0x45) = CHR 0x65"
  "lower_char (CHR 0x46) = CHR 0x66" "lower_char (CHR 0x47) = CHR 0x67"
  "lower_char (CHR 0x48) = CHR 0x68" "lower_char (CHR 0x49) = CHR 0x69"
  "lower_char (CHR 0x4A) = CHR 0x6A" "lower_char (CHR 0x4B) = CHR 0x6B"
  "lower_char (CHR 0x4C) = CHR 0x6C" "lower_char (CHR 0x4D) = CHR 0x6D"
  "lower_char (CHR 0x4E) = CHR 0x6E" "lower_char (CHR 0x4F) = CHR 0x6F"
  "lower_char (CHR 0x50) = CHR 0x70" "lower_char (CHR 0x51) = CHR 0x71"
  "lower_char (CHR 0x52) = CHR 0x72" "lower_char (CHR 0x53) = CHR 0x73"
  "lower_char (CHR 0x54) = CHR 0x74" "lower_char (CHR 0x55) = CHR 0x75"
  "lower_char (CHR 0x56) = CHR 0x76" "lower_char (CHR 0x57) = CHR 0x77"
  "lower_char (CHR 0x58) = CHR 0x78" "lower_char (CHR 0x59) = CHR 0x79"
  "lower_char (CHR 0x5A) = CHR 0x7A" "lower_char (CHR 0x5B) = CHR 0x5B"
  "lower_char (CHR 0x5C) = CHR 0x5C" "lower_char (CHR 0x5D) = CHR 0x5D"
  "lower_char (CHR 0x5E) = CHR 0x5E" "lower_char (CHR 0x5F) = CHR 0x5F"
  "lower_char (CHR 0x60) = CHR 0x60" "lower_char (CHR 0x61) = CHR 0x61"
  "lower_char (CHR 0x62) = CHR 0x62" "lower_char (CHR 0x63) = CHR 0x63"
  "lower_char (CHR 0x64) = CHR 0x64" "lower_char (CHR 0x65) = CHR 0x65"
  "lower_char (CHR 0x66) = CHR 0x66" "lower_char (CHR 0x67) = CHR 0x67"
  "lower_char (CHR 0x68) = CHR 0x68" "lower_char (CHR 0x69) = CHR 0x69"
  "lower_char (CHR 0x6A) = CHR 0x6A" "lower_char (CHR 0x6B) = CHR 0x6B"
  "lower_char (CHR 0x6C) = CHR 0x6C" "lower_char (CHR 0x6D) = CHR 0x6D"
  "lower_char (CHR 0x6E) = CHR 0x6E" "lower_char (CHR 0x6F) = CHR 0x6F"
  "lower_char (CHR 0x70) = CHR 0x70" "lower_char (CHR 0x71) = CHR 0x71"
  "lower_char (CHR 0x72) = CHR 0x72" "lower_char (CHR 0x73) = CHR 0x73"
  "lower_char (CHR 0x74) = CHR 0x74" "lower_char (CHR 0x75) = CHR 0x75"
  "lower_char (CHR 0x76) = CHR 0x76" "lower_char (CHR 0x77) = CHR 0x77"
  "lower_char (CHR 0x78) = CHR 0x78" "lower_char (CHR 0x79) = CHR 0x79"
  "lower_char (CHR 0x7A) = CHR 0x7A" "lower_char (CHR 0x7B) = CHR 0x7B"
  "lower_char (CHR 0x7C) = CHR 0x7C" "lower_char (CHR 0x7D) = CHR 0x7D"
  "lower_char (CHR 0x7E) = CHR 0x7E"
  by (simp_all add: lower_char_def char_of_eq_iff)

section \<open>Facts about the emotion detector\<close>

subsection \<open>The selection loop\<close>

lemma find_append:
  "find P (xs @ ys) = (case find P xs of None \<Rightarrow> find P ys | Some a \<Rightarrow> Some a)"
  by (induction xs) auto

lemma best_step_None:
  "best_step lt x None =
     (if 0 < pattern_score x lt then Some (mood x, pattern_score x lt) else None)"
  by (simp add: best_step_def)

lemma best_step_Some:
  "best_step lt x (Some (m, s)) =
     (if 0 < pattern_score x lt \<and> s < pattern_score x lt
      then Some (mood x, pattern_score x lt) else Some (m, s))"
  by (simp add: best_step_def)

lemma first_max_Nil: "first_max f [] = None"
  by (simp add: first_max_def)

lemma first_max_in:
  "first_max f cands = Some p \<Longrightarrow> p \<in> set cands \<and> (\<forall>q\<in>set cands. f q \<le> f p)"
  unfolding first_max_def by (auto simp: find_Some_iff list_all_iff)

lemma first_max_exists: "cands \<noteq> [] \<Longrightarrow> \<exists>p. first_max f cands = Some p"
proof -
  assume ne: "cands \<noteq> []"
  then have "f ` set cands \<noteq> {}" "finite (f ` set cands)" by auto
  then have "Max (f ` set cands) \<in> f ` set cands" by (rule_tac Max_in)
  then obtain p where p: "p \<in> set cands" "f p = Max (f ` set cands)" by auto
  then have "\<forall>q\<in>set cands. f q \<le> f p" by simp
  then have "\<exists>p\<in>set cands. list_all (\<lambda>q. f q \<le> f p) cands"
    using p(1) by (auto simp: list_all_iff)
  then have "find (\<lambda>p. list_all (\<lambda>q. f q \<le> f p) cands) cands \<noteq> None"
    by (auto simp: find_None_iff)
  then show ?thesis unfolding first_max_def by auto
qed

lemma first_max_single: "first_max f [x] = Some x"
  by (simp add: first_max_def)

lemma first_max_snoc_greater:
  assumes "first_max f cands = Some p" "f p < f x"
  shows "first_max f (cands @ [x]) = Some x"
proof -
  have all: "\<forall>q\<in>set cands. f q \<le> f p" using first_max_in[OF assms(1)] by simp
  have "find (\<lambda>r. list_all (\<lambda>q. f q \<le> f r) (cands @ [x])) cands = None"
    using all assms(2) by (auto simp: find_None_iff list_all_iff)
  moreover have "list_all (\<lambda>q. f q \<le> f x) (cands @ [x])"
    using all assms(2) by (auto simp: list_all_iff)
  ultimately show ?thesis
    unfolding first_max_def by (simp add: find_append)
qed

lemma first_max_snoc_le:
  assumes "first_max f cands = Some p" "f x \<le> f p"
  shows "first_max f (cands @ [x]) = Some p"
proof -
  have "find (\<lambda>r. list_all (\<lambda>q. f q \<le> f r) (cands @ [x])) cands
        = find (\<lambda>r. list_all (\<lambda>q. f q \<le> f r) cands) cands"
  proof (rule find_cong)
    fix r assume r: "r \<in> set cands"
    show "list_all (\<lambda>q. f q \<le> f r) (cands @ [x]) = list_all (\<lambda>q. f q \<le> f r) cands"
    proof (cases "list_all (\<lambda>q. f q \<le> f r) cands")
      case True
      then have "f p \<le> f r" using first_max_in[OF assms(1)] by (auto simp: list_all_iff)
      then show ?thesis using True assms(2) by simp
    next
      case False
      then show ?thesis by simp
    qed
  qed simp
  then show ?thesis using assms(1) unfolding first_max_def by (simp add: find_append)
qed

lemma first_max_cong:
  assumes "\<forall>p\<in>set xs. f p = g p"
  shows "first_max f xs = first_max g xs"
proof -
  have "find (\<lambda>p. list_all (\<lambda>q. f q \<le> f p) xs) xs = find (\<lambda>p. list_all (\<lambda>q. g q \<le> g p) xs) xs"
  proof (rule find_cong)
    fix p assume "p \<in> set xs"
    then show "list_all (\<lambda>q. f q \<le> f p) xs = list_all (\<lambda>q. g q \<le> g p) xs"
      using assms by (auto simp: list_all_iff)
  qed simp
  then show ?thesis by (simp add: first_max_def)
qed

lemma fold_best_step_first_max:
  "fold (best_step lt) ps None
     = map_option (\<lambda>p. (mood p, pattern_score p lt))
         (first_max (\<lambda>p. pattern_score p lt) (filter (\<lambda>p. 0 < pattern_score p lt) ps))"
proof (induction ps rule: rev_induct)
  case Nil
  then show ?case by (simp add: first_max_Nil)
next
  case (snoc x ps)
  let ?f = "\<lambda>p. pattern_score p lt"
  let ?c = "filter (\<lambda>p. 0 < ?f p) ps"
  have step: "fold (best_step lt) (ps @ [x]) None = best_step lt x (fold (best_step lt) ps None)"
    by simp
  show ?case
  proof (cases "0 < ?f x")
    case False
    then have "best_step lt x (fold (best_step lt) ps None) = fold (best_step lt) ps None"
      by (cases "fold (best_step lt) ps None") (auto simp: best_step_None best_step_Some)
    then show ?thesis using snoc False unfolding step by simp
  next
    case True
    show ?thesis
    proof (cases "?c = []")
      case True
      then have "fold (best_step lt) ps None = None" using snoc by (simp add: first_max_Nil)
      then show ?thesis using True \<open>0 < ?f x\<close> unfolding step
        by (simp add: best_step_None first_max_single)
    next
      case False
      then obtain p where p: "first_max ?f ?c = Some p" using first_max_exists by blast
      then have fp: "fold (best_step lt) ps None = Some (mood p, ?f p)" using snoc by simp
      show ?thesis
      proof (cases "?f p < ?f x")
        case True
        then show ?thesis using \<open>0 < ?f x\<close> first_max_snoc_greater[OF p True]
          unfolding step fp by (simp add: best_step_Some)
      next
        case False
        then have "?f x \<le> ?f p" by simp
        then show ?thesis using \<open>0 < ?f x\<close> first_max_snoc_le[OF p] False
          unfolding step fp by (simp add: best_step_Some)
      qed
    qed
  qed
qed

subsection \<open>The score of a pattern\<close>

lemma fold_add_if:
  "fold (\<lambda>x s. if P x then s + w else s) xs a = a + w * length (filter P xs)"
  by (induction xs arbitrary: a) auto

lemma phrase_score_count:
  "phrase_score p lt = weight p * 2 * length (filter (includes_str lt) (phrases p))"
  unfolding phrase_score_def by (simp add: fold_add_if)

lemma pattern_score_count:
  "pattern_score p lt =
     weight p * 2 * length (filter (includes_str lt) (phrases p))
     + weight p * length (filter (\<lambda>k. regex_test k lt) (keywords_list p))"
  unfolding pattern_score_def by (simp add: fold_add_if phrase_score_count)

lemma keywords_ok: "\<forall>p\<in>set EMOTION_PATTERNS. \<forall>k\<in>set (keywords_list p). keyword_ok k"
  by (simp add: EMOTION_PATTERNS_def keyword_ok_def is_word_char_ascii)

lemma pattern_score_ref:
  assumes "\<forall>k\<in>set (keywords_list p). keyword_ok k"
  shows "pattern_score p lt = score_ref p lt"
proof -
  have "filter (includes_str lt) (phrases p) = filter (\<lambda>ph. is_substring ph lt) (phrases p)"
    by (rule filter_cong) (simp_all add: includes_str_iff is_substring_def)
  moreover have "filter (\<lambda>k. regex_test k lt) (keywords_list p)
                 = filter (\<lambda>k. whole_word_match k lt) (keywords_list p)"
  proof (rule filter_cong)
    fix k assume "k \<in> set (keywords_list p)"
    then have "keyword_ok k" using assms by simp
    then show "regex_test k lt = whole_word_match k lt"
      unfolding keyword_ok_def using regex_test_whole_word by blast
  qed simp
  ultimately show ?thesis by (simp add: pattern_score_count score_ref_def)
qed

lemma detectEmotion_eq_ref: "detectEmotion text = detectEmotion_ref text"
proof -
  let ?lt = "toLowerCase text"
  have eq: "\<forall>p\<in>set EMOTION_PATTERNS. pattern_score p ?lt = score_ref p ?lt"
    using keywords_ok pattern_score_ref by blast
  then have c: "filter (\<lambda>p. 0 < pattern_score p ?lt) EMOTION_PATTERNS
          = filter (\<lambda>p. 0 < score_ref p ?lt) EMOTION_PATTERNS"
    by (intro filter_cong) simp_all
  have "first_max (\<lambda>p. pattern_score p ?lt) (filter (\<lambda>p. 0 < score_ref p ?lt) EMOTION_PATTERNS)
        = first_max (\<lambda>p. score_ref p ?lt) (filter (\<lambda>p. 0 < score_ref p ?lt) EMOTION_PATTERNS)"
    by (rule first_max_cong) (use eq in simp)
  then show ?thesis
    unfolding detectEmotion_def best_of_def detectEmotion_ref_def Let_def
      fold_best_step_first_max c
    by (simp add: option.map_comp comp_def)
qed

lemma single_word_no_embedded_match:
  assumes "keyword \<noteq> []" "list_all is_word_char w" "length keyword < length w"
  shows "\<not> regex_test keyword w"
proof
  assume "regex_test keyword w"
  then obtain pre mid post where m: "w = pre @ mid @ post"
      "map canonicalize mid = map canonicalize keyword"
      "word_boundary (prev_after False pre) (mid @ post)"
      "word_boundary (prev_after False (pre @ mid)) post"
    unfolding regex_test_def regex_search_iff by blast
  have len: "length mid = length keyword" using m(2) by (rule map_eq_imp_length_eq)
  then have ne: "mid \<noteq> []" using assms(1) by auto
  have wc: "\<forall>c\<in>set w. is_word_char c" using assms(2) by (simp add: list_all_iff)
  have "is_word_char (hd mid)" "is_word_char (last mid)" using wc m(1) ne by simp_all
  have "pre = []"
  proof (rule ccontr)
    assume "pre \<noteq> []"
    then have "is_word_char (last pre)" using wc m(1) by simp
    then show False using m(3) \<open>pre \<noteq> []\<close> \<open>is_word_char (hd mid)\<close> ne
      by (cases mid) (auto simp: word_boundary_def prev_after_def)
  qed
  moreover have "post = []"
  proof (rule ccontr)
    assume "post \<noteq> []"
    then have "is_word_char (hd post)" using wc m(1) by simp
    then show False using m(4) \<open>post \<noteq> []\<close> \<open>is_word_char (last mid)\<close> ne
      by (cases post) (auto simp: word_boundary_def prev_after_def)
  qed
  ultimately have "length w = length keyword" using m(1) len by simp
  then show False using assms(3) by simp
qed

subsection \<open>Occurrences\<close>

lemma includes_str_occurrences: "includes_str t s = (0 < phrase_occurrences t s)"
  by (induction t) auto

lemma regex_search_occurrences:
  "regex_search k prev t = (0 < keyword_occurrences_from k prev t)"
  by (induction t arbitrary: prev) auto

lemma regex_test_occurrences: "regex_test k t = (0 < keyword_occurrences k t)"
  by (simp add: regex_test_def keyword_occurrences_def regex_search_occurrences)

lemma pattern_score_bound:
  "pattern_score p lt \<le> weight p * 2 * length (phrases p) + weight p * length (keywords_list p)"
proof -
  have "length (filter (includes_str lt) (phrases p)) \<le> length (phrases p)"
       "length (filter (\<lambda>k. regex_test k lt) (keywords_list p)) \<le> length (keywords_list p)"
    by simp_all
  then show ?thesis
    unfolding pattern_score_count by (intro add_mono mult_le_mono2)
qed

lemma same_elements_score:
  assumes "same_elements ps lt1 lt2" "p \<in> set ps"
  shows "pattern_score p lt1 = pattern_score p lt2"
proof -
  have ph: "\<forall>x\<in>set (phrases p). (0 < phrase_occurrences lt1 x) = (0 < phrase_occurrences lt2 x)"
   and kw: "\<forall>k\<in>set (keywords_list p). (0 < keyword_occurrences k lt1) = (0 < keyword_occurrences k lt2)"
    using assms unfolding same_elements_def by (auto simp: list_all_iff)
  have "filter (includes_str lt1) (phrases p) = filter (includes_str lt2) (phrases p)"
    by (rule filter_cong) (use ph in \<open>simp_all add: includes_str_occurrences\<close>)
  moreover have "filter (\<lambda>k. regex_test k lt1) (keywords_list p)
                 = filter (\<lambda>k. regex_test k lt2) (keywords_list p)"
    by (rule filter_cong) (use kw in \<open>simp_all add: regex_test_occurrences\<close>)
  ultimately show ?thesis by (simp add: pattern_score_count)
qed

lemma same_elements_fold:
  assumes "\<forall>p\<in>set ps. pattern_score p lt1 = pattern_score p lt2"
  shows "fold (best_step lt1) ps acc = fold (best_step lt2) ps acc"
  using assms by (induction ps arbitrary: acc) (simp_all add: best_step_def)


section \<open>The claims about the emotion detector\<close>

lemmas detect_eval =
  EMOTION_PATTERNS_def excited_pattern_def sad_pattern_def best_of_def best_step_def pattern_score_def phrase_score_def
  regex_test_def match_at_def word_boundary_def is_word_char_ascii canonicalize_ascii
  toLowerCase_def lower_char_ascii

lemma best_of_hardly_sad:
  "best_of EMOTION_PATTERNS ''That is hardly SAD'' = Some (Sad, 3)"
  by (simp add: detect_eval)

text \<open>
  Claim C2. \<^const>\<open>detectEmotion\<close> is the reference definition: lower-case the text;
  per pattern, in table order, twice the weight for each phrase of its list that occurs
  as a substring plus once the weight for each keyword of its list that matches as a
  whole word, without regard to case; patterns with score zero are no candidates; the mood
  of the first candidate with the highest score, or no mood without a candidate. And a
  keyword inside a longer word counts for nothing: in a text that is one single word
  longer than the keyword, the keyword's pattern does not match.
\<close>

theorem detectEmotion_is_reference:
  "detectEmotion text = detectEmotion_ref text
   \<and> (keyword \<noteq> [] \<and> list_all is_word_char w \<and> length keyword < length w
        \<longrightarrow> \<not> regex_test keyword w)"
  using detectEmotion_eq_ref single_word_no_embedded_match by blast

theorem detectEmotion_is_reference_witness:
  "detectEmotion ''That is hardly SAD'' = Some Sad
   \<and> detectEmotion_ref ''That is hardly SAD'' = Some Sad
   \<and> ''scar'' \<noteq> [] \<and> list_all is_word_char ''scary'' \<and> length ''scar'' < length ''scary''
   \<and> \<not> regex_test ''scar'' ''scary''"
proof -
  have d: "detectEmotion ''That is hardly SAD'' = Some Sad"
    by (simp add: detectEmotion_def best_of_hardly_sad)
  have h: "''scar'' \<noteq> [] \<and> list_all is_word_char ''scary'' \<and> length ''scar'' < length ''scary''"
    by (simp add: is_word_char_ascii)
  show ?thesis
    using detectEmotion_is_reference[of "''That is hardly SAD''" "''scar''" "''scary''"] d h
    by simp
qed

lemma best_of_long_example:
  "best_of EMOTION_PATTERNS
     (''Hmm, that'' @ [CHR 0x27] @ ''s strange. I'' @ [CHR 0x27] @ ''m not sure what you mean by that.'')
   = Some (Confused, 12)"
  by (simp add: detect_eval)

text \<open>
  Claim C3. A text of fewer than 50 code units leaves the current mood as it is. From 50
  code units on, the result is the detected mood when there is one and it is not
  \<open>thinking\<close>, and the current mood otherwise; so the result is \<open>thinking\<close> only when
  the current mood was.
\<close>

theorem analyzeStreamingEmotion_policy:
  "(length text < 50 \<longrightarrow> analyzeStreamingEmotion text m = m)
   \<and> (50 \<le> length text \<longrightarrow>
        analyzeStreamingEmotion text m =
          (case detectEmotion text of
             None \<Rightarrow> m
           | Some d \<Rightarrow> if d = Thinking then m else d))
   \<and> (analyzeStreamingEmotion text m = Thinking \<longrightarrow> m = Thinking)"
  by (auto simp: analyzeStreamingEmotion_def split: option.splits)

theorem analyzeStreamingEmotion_policy_witness:
  "length ''Let me think about it'' < 50
   \<and> analyzeStreamingEmotion ''Let me think about it'' Talking = Talking
   \<and> 50 \<le> length (''Hmm, that'' @ [CHR 0x27] @ ''s strange. I'' @ [CHR 0x27]
                     @ ''m not sure what you mean by that.'')
   \<and> analyzeStreamingEmotion
        (''Hmm, that'' @ [CHR 0x27] @ ''s strange. I'' @ [CHR 0x27]
           @ ''m not sure what you mean by that.'') Talking = Confused"
proof -
  let ?long = "''Hmm, that'' @ [CHR 0x27] @ ''s strange. I'' @ [CHR 0x27]
                @ ''m not sure what you mean by that.''"
  have s: "length ''Let me think about it'' < 50" by simp
  have l: "50 \<le> length ?long" by simp
  have d: "detectEmotion ?long = Some Confused"
    unfolding detectEmotion_def best_of_long_example by simp
  show ?thesis
    using analyzeStreamingEmotion_policy[of "''Let me think about it''" Talking]
      analyzeStreamingEmotion_policy[of ?long Talking] s l d
    by simp
qed

lemma best_of_phrase_example:
  "best_of EMOTION_PATTERNS ''that must be hard'' = Some (Sad, 9)"
  by (simp add: detect_eval)

lemma scores_phrase_example:
  "phrase_score sad_pattern ''that must be hard'' = 6"
  "pattern_score sad_pattern ''that must be hard'' = 9"
  "regex_test ''hard'' ''that must be hard''"
  "toLowerCase ''that must be hard'' = ''that must be hard''"
  by (simp_all add: detect_eval)

text \<open>
  Claim C4, as stated, fails: on the text \<open>that must be hard\<close> the selected mood is \<open>sad\<close>,
  but its score is 9, not 6.
\<close>

theorem phrase_example_score_counterexample:
  "best_of EMOTION_PATTERNS ''that must be hard'' \<noteq> Some (Sad, 6)
   \<and> pattern_score sad_pattern (toLowerCase ''that must be hard'') \<noteq> 6"
  by (simp add: best_of_phrase_example scores_phrase_example)

text \<open>
  Claim C4, amended. On the text \<open>that must be hard\<close> the selected mood is \<open>sad\<close> with a
  total score of exactly 9: the phrase gives 6 (the weight 3 of the \<open>sad\<close> pattern, twice),
  and the keyword \<open>hard\<close>, a whole word of that phrase, gives 3 more. That is more than
  the score of a pattern of weight at most 3 of which one keyword matches and no phrase
  occurs.
\<close>

theorem phrase_example_score:
  "detectEmotion ''that must be hard'' = Some Sad
   \<and> best_of EMOTION_PATTERNS ''that must be hard'' = Some (Sad, 9)
   \<and> mood sad_pattern = Sad \<and> weight sad_pattern = 3
   \<and> phrase_score sad_pattern (toLowerCase ''that must be hard'') = 6
   \<and> pattern_score sad_pattern (toLowerCase ''that must be hard'') = 9
   \<and> (weight q \<le> 3 \<and> filter (includes_str t) (phrases q) = []
        \<and> length (filter (\<lambda>k. regex_test k t) (keywords_list q)) = 1
        \<longrightarrow> pattern_score q t
              < pattern_score sad_pattern (toLowerCase ''that must be hard''))"
proof -
  have "weight q \<le> 3 \<and> filter (includes_str t) (phrases q) = []
        \<and> length (filter (\<lambda>k. regex_test k t) (keywords_list q)) = 1
        \<longrightarrow> pattern_score q t < 9"
    by (auto simp: pattern_score_count)
  moreover have "mood sad_pattern = Sad \<and> weight sad_pattern = 3"
    by (simp add: EMOTION_PATTERNS_def sad_pattern_def)
  ultimately show ?thesis
    by (simp add: detectEmotion_def best_of_phrase_example scores_phrase_example)
qed

lemma wow_example:
  "pattern_score excited_pattern ''wow'' = 3"
  "filter (includes_str ''wow'') (phrases excited_pattern) = []"
  "length (filter (\<lambda>k. regex_test k ''wow'') (keywords_list excited_pattern)) = 1"
  "weight excited_pattern \<le> 3"
  by (simp_all add: detect_eval)

theorem phrase_example_score_witness:
  "weight excited_pattern \<le> 3
   \<and> filter (includes_str ''wow'') (phrases excited_pattern) = []
   \<and> length (filter (\<lambda>k. regex_test k ''wow'') (keywords_list excited_pattern)) = 1
   \<and> pattern_score excited_pattern ''wow'' = 3
   \<and> pattern_score sad_pattern (toLowerCase ''that must be hard'') = 9
   \<and> pattern_score excited_pattern ''wow''
       < pattern_score sad_pattern (toLowerCase ''that must be hard'')"
  using phrase_example_score[of excited_pattern "''wow''"] wow_example
  by simp

lemma same_elements_wow:
  "same_elements EMOTION_PATTERNS (toLowerCase ''wow'') (toLowerCase ''Wow wow WOW'')"
  "phrase_occurrences ''wow'' ''wow'' = 1"
  "keyword_occurrences ''wow'' (toLowerCase ''wow'') = 1"
  "keyword_occurrences ''wow'' (toLowerCase ''Wow wow WOW'') = 3"
  by (simp_all add: same_elements_def keyword_occurrences_def detect_eval)

lemma best_of_wow:
  "best_of EMOTION_PATTERNS ''wow'' = Some (Excited, 3)"
  by (simp add: detect_eval)

text \<open>
  Claim C9. An element of a pattern counts at most once, however often it occurs: the
  score of a pattern is at most what its phrases and keywords give when each counts
  once, and two texts in which the same phrases and keywords occur at all (each any
  number of times) have the same score for every pattern, the same best match and the
  same detected mood.
\<close>

theorem occurrences_count_once:
  "pattern_score p lt \<le> weight p * 2 * length (phrases p) + weight p * length (keywords_list p)
   \<and> (same_elements EMOTION_PATTERNS (toLowerCase t1) (toLowerCase t2) \<longrightarrow>
        list_all (\<lambda>q. pattern_score q (toLowerCase t1) = pattern_score q (toLowerCase t2))
          EMOTION_PATTERNS
        \<and> best_of EMOTION_PATTERNS t1 = best_of EMOTION_PATTERNS t2
        \<and> detectEmotion t1 = detectEmotion t2)"
proof -
  have "list_all (\<lambda>q. pattern_score q (toLowerCase t1) = pattern_score q (toLowerCase t2))
          EMOTION_PATTERNS
        \<and> best_of EMOTION_PATTERNS t1 = best_of EMOTION_PATTERNS t2
        \<and> detectEmotion t1 = detectEmotion t2"
    if s: "same_elements EMOTION_PATTERNS (toLowerCase t1) (toLowerCase t2)"
  proof -
    have eq: "\<forall>q\<in>set EMOTION_PATTERNS.
                pattern_score q (toLowerCase t1) = pattern_score q (toLowerCase t2)"
      using same_elements_score[OF s] by blast
    then have "best_of EMOTION_PATTERNS t1 = best_of EMOTION_PATTERNS t2"
      unfolding best_of_def by (rule same_elements_fold)
    then show ?thesis using eq by (simp add: detectEmotion_def list_all_iff)
  qed
  then show ?thesis using pattern_score_bound by blast
qed

theorem occurrences_count_once_witness:
  "keyword_occurrences ''wow'' (toLowerCase ''wow'') = 1
   \<and> keyword_occurrences ''wow'' (toLowerCase ''Wow wow WOW'') = 3
   \<and> same_elements EMOTION_PATTERNS (toLowerCase ''wow'') (toLowerCase ''Wow wow WOW'')
   \<and> best_of EMOTION_PATTERNS ''wow'' = Some (Excited, 3)
   \<and> best_of EMOTION_PATTERNS ''Wow wow WOW'' = Some (Excited, 3)
   \<and> detectEmotion ''Wow wow WOW'' = detectEmotion ''wow''"
  using occurrences_count_once[of excited_pattern "''wow''" "''wow''" "''Wow wow WOW''"]
    same_elements_wow best_of_wow
  by simp


section \<open>Facts about the stream decoder\<close>

subsection \<open>Lines\<close>

lemma split_nl_not_Nil [simp]: "split_nl s \<noteq> []"
  by (induction s) (auto split: list.splits)

lemma split_nl_Cons:
  "split_nl (c # cs) =
     (if c = 10 then [] # split_nl cs else (c # hd (split_nl cs)) # tl (split_nl cs))"
  by (cases "split_nl cs") (use split_nl_not_Nil in auto)

lemma split_nl_append:
  "split_nl (a @ b) = butlast (split_nl a) @ split_nl (last (split_nl a) @ b)"
proof (induction a)
  case Nil
  then show ?case by simp
next
  case (Cons c cs)
  show ?case
  proof (cases "c = 10")
    case True
    then show ?thesis using Cons by simp
  next
    case False
    obtain l ls where s: "split_nl cs = l # ls" by (cases "split_nl cs") (use split_nl_not_Nil in auto)
    show ?thesis
    proof (cases ls)
      case Nil
      then have "split_nl (cs @ b) = split_nl (l @ b)" using Cons s by simp
      then show ?thesis using False s Nil by (simp add: split_nl_Cons)
    next
      case (Cons l' ls')
      then have "split_nl (cs @ b) = l # butlast (l' # ls') @ split_nl (last (l' # ls') @ b)"
        using Cons.IH s by simp
      then show ?thesis using False s Cons by simp
    qed
  qed
qed

lemma split_nl_no_nl: "10 \<notin> set s \<Longrightarrow> split_nl s = [s]"
  by (induction s) auto

lemma split_nl_line: "10 \<notin> set l \<Longrightarrow> split_nl (l @ 10 # rest) = l # split_nl rest"
  by (induction l) auto

lemma lines_no_nl: "l \<in> set (split_nl s) \<Longrightarrow> 10 \<notin> set l"
proof (induction s arbitrary: l)
  case Nil
  then show ?case by simp
next
  case (Cons c cs)
  then show ?case
    by (cases "split_nl cs") (auto split: if_splits)
qed

lemma last_split_nl_no_nl: "10 \<notin> set (last (split_nl s))"
  using lines_no_nl[of "last (split_nl s)" s] by simp

lemma process_lines_append:
  "process_lines (xs @ ys) =
     (let (y1, r1) = process_lines xs
      in if r1 then (y1, True)
         else (let (y2, r2) = process_lines ys in (y1 @ y2, r2)))"
  by (induction xs) (auto split: line_effect.splits prod.splits)

lemma process_line_Return: "process_line l = Return \<longleftrightarrow> l = str ''data: [DONE]''"
proof
  assume "process_line l = Return"
  then have s: "startsWith l (str ''data: '')" and d: "drop 6 l = str ''[DONE]''"
    unfolding process_line_def
    by (auto simp: Let_def split: if_splits option.splits sum.splits)
  from s obtain r where "l = str ''data: '' @ r" by (auto simp: startsWith_iff)
  then show "l = str ''data: [DONE]''" using d by (simp add: str_def)
next
  assume "l = str ''data: [DONE]''"
  then show "process_line l = Return" by (simp add: process_line_def str_def)
qed


lemma complete_lines_append:
  "complete_lines (a @ b) = complete_lines a @ complete_lines (last (split_nl a) @ b)"
  unfolding complete_lines_def
  by (subst split_nl_append) (simp add: butlast_append)

lemma concat_decode_all_Cons:
  "concat (decode_all d (v # vs)) = snd (decode d v) @ concat (decode_all (fst (decode d v)) vs)"
  by (simp add: case_prod_unfold Let_def)

lemma complete_lines_no_nl: "10 \<notin> set s \<Longrightarrow> complete_lines s = []"
  by (simp add: complete_lines_def split_nl_no_nl)

lemma stream_loop_Chunk:
  "stream_loop d buffer (Chunk v # rest) =
     (let text = buffer @ snd (decode d v);
          (ys, returned) = process_lines (complete_lines text)
      in if returned then \<lparr> fragments = ys, outcome = Completed, reads_made = 1 \<rparr>
         else (let r = stream_loop (fst (decode d v)) (last (split_nl text)) rest
               in r\<lparr> fragments := ys @ fragments r, reads_made := Suc (reads_made r) \<rparr>))"
  by (simp add: pop_buffer_def complete_lines_def case_prod_unfold Let_def)

lemma stream_loop_chunks:
  assumes "10 \<notin> set buffer"
  shows "(case process_lines (complete_lines (buffer @ concat (decode_all d chunks))) of
      (ys, returned) \<Rightarrow>
        (returned \<longrightarrow>
           fragments (stream_loop d buffer (map Chunk chunks @ rest)) = ys
           \<and> outcome (stream_loop d buffer (map Chunk chunks @ rest)) = Completed
           \<and> reads_made (stream_loop d buffer (map Chunk chunks @ rest)) \<le> length chunks)
        \<and> (\<not> returned \<longrightarrow>
           stream_loop d buffer (map Chunk chunks @ rest) =
             (let r = stream_loop (decoder_after d chunks)
                        (last (split_nl (buffer @ concat (decode_all d chunks)))) rest
              in r\<lparr> fragments := ys @ fragments r,
                     reads_made := length chunks + reads_made r \<rparr>)))"
  using assms
proof (induction chunks arbitrary: d buffer)
  case Nil
  then show ?case by (simp add: complete_lines_no_nl split_nl_no_nl)
next
  case (Cons v vs)
  let ?t1 = "buffer @ snd (decode d v)"
  let ?d1 = "fst (decode d v)"
  let ?b1 = "last (split_nl ?t1)"
  let ?more = "concat (decode_all ?d1 vs)"
  have nb: "10 \<notin> set ?b1" by (rule last_split_nl_no_nl)
  have tx: "buffer @ concat (decode_all d (v # vs)) = ?t1 @ ?more"
    by (simp add: case_prod_unfold Let_def)
  have cl: "complete_lines (?t1 @ ?more) = complete_lines ?t1 @ complete_lines (?b1 @ ?more)"
    by (rule complete_lines_append)
  have lst: "last (split_nl (?t1 @ ?more)) = last (split_nl (?b1 @ ?more))"
    by (subst split_nl_append) simp
  obtain y1 r1 where p1: "process_lines (complete_lines ?t1) = (y1, r1)" by force
  obtain y2 r2 where p2: "process_lines (complete_lines (?b1 @ ?more)) = (y2, r2)" by force
  have pall: "process_lines (complete_lines (?t1 @ ?more)) = (if r1 then (y1, True) else (y1 @ y2, r2))"
    unfolding cl process_lines_append p1 p2 by simp
  note IH = Cons.IH[OF nb, of ?d1, unfolded p2, simplified]
  show ?case
  proof (cases r1)
    case True
    then show ?thesis
      unfolding tx pall by (simp add: stream_loop_Chunk p1 del: stream_loop.simps)
  next
    case False
    show ?thesis
    proof (cases r2)
      case True
      then show ?thesis
        using IH False unfolding tx pall
        by (simp add: stream_loop_Chunk p1 Let_def del: stream_loop.simps)
    next
      case r2f: False
      then show ?thesis
        using IH False unfolding tx pall lst
        by (simp add: stream_loop_Chunk p1 Let_def del: stream_loop.simps)
    qed
  qed
qed

subsection \<open>The decoder does not depend on the chunking\<close>

lemma utf8_run_append:
  "utf8_run s (a @ b) =
     (let (s1, o1) = utf8_run s a; (s2, o2) = utf8_run s1 b in (s2, o1 @ o2))"
  by (induction a arbitrary: s) (simp_all add: case_prod_unfold Let_def)

lemma strip_bom_append:
  "strip_bom seen (xs @ ys) =
     (let (seen1, xs') = strip_bom seen xs; (seen2, ys') = strip_bom seen1 ys
      in (seen2, xs' @ ys'))"
  by (cases seen; cases xs) simp_all

lemma decode_append:
  "decode d (a @ b) =
     (let (d1, t1) = decode d a; (d2, t2) = decode d1 b in (d2, t1 @ t2))"
  unfolding decode_def utf8_run_append
  by (simp add: case_prod_unfold Let_def strip_bom_append)

lemma decode_Nil: "decode d [] = (d, [])"
  by (cases "bom_seen d") (simp_all add: decode_def)

lemma decode_all_concat:
  "concat (decode_all d chunks) = snd (decode d (concat chunks))"
  by (induction chunks arbitrary: d)
     (simp_all add: decode_Nil decode_append case_prod_unfold Let_def)

lemma decoder_after_concat:
  "decoder_after d chunks = fst (decode d (concat chunks))"
  by (induction chunks arbitrary: d)
     (simp_all add: decode_Nil decode_append case_prod_unfold Let_def)

subsection \<open>Runs on chunks\<close>

lemma reads_made_pos: "1 \<le> reads_made (stream_loop d buffer rs)"
  by (induction d buffer rs rule: stream_loop.induct)
     (simp_all add: case_prod_unfold Let_def)

lemma streamChat_ok: "streamChat (ok_response rs) = stream_loop new_TextDecoder [] rs"
  by (simp add: streamChat_def ok_response_def)

lemma streamChat_chunks:
  "fragments (streamChat (ok_response (map Chunk chunks)))
     = fst (process_lines (complete_lines (snd (decode new_TextDecoder (concat chunks)))))
   \<and> outcome (streamChat (ok_response (map Chunk chunks))) = Completed"
proof -
  obtain ys returned where
    p: "process_lines (complete_lines ([] @ concat (decode_all new_TextDecoder chunks))) = (ys, returned)"
    by force
  have "10 \<notin> set ([] :: jstring)" by simp
  from stream_loop_chunks[OF this, of new_TextDecoder chunks "[]", unfolded p]
  show ?thesis
    using p by (cases returned) (simp_all add: streamChat_ok decode_all_concat Let_def)
qed

lemmas json_eval = JSON_parse_def idle_step_def escape_unit_def hex_value_def num_step_def
  num_complete_def num_value_def num_start_def is_digit_def start_value_def close_array_def
  close_object_def set_key_def str_def

lemmas decode_eval = decode_def utf8_handler_def utf8_lead_def utf8_reset_def utf16_units_def
  new_TextDecoder_def ascii_bytes_def

lemmas line_eval = process_line_def content_of_def get_member_def get_optional_def
  complete_lines_def

lemma decode_hi_event:
  "decode new_TextDecoder hi_event
   = (\<lparr>utf8 = utf8_reset, bom_seen = True\<rparr>,
      str ''data: {\"choices\":[{\"delta\":{\"content\":\"Hi\"}}]}'' @ [10])"
  by (simp add: hi_event_def decode_eval str_def)

lemma process_hi_event:
  "process_lines (complete_lines (str ''data: {\"choices\":[{\"delta\":{\"content\":\"Hi\"}}]}'' @ [10]))
   = ([JString (str ''Hi'')], False)"
  by (simp add: line_eval json_eval)

lemma streamChat_hi_event:
  "streamChat (ok_response [Chunk hi_event])
   = \<lparr> fragments = [JString (str ''Hi'')], outcome = Completed, reads_made = 2 \<rparr>"
  unfolding streamChat_ok
  by (simp add: stream_loop_Chunk decode_hi_event process_hi_event del: stream_loop.simps(3))

subsection \<open>Content events and the sentinel\<close>

lemma split_nl_lines_text:
  "\<forall>l\<in>set ls. 10 \<notin> set l \<Longrightarrow> split_nl (lines_text ls @ rest) = ls @ split_nl rest"
  by (induction ls) (simp_all add: lines_text_def split_nl_line)

lemma content_event_Yield: "content_event line v \<Longrightarrow> process_line line = Yield v"
  unfolding content_event_def process_line_def
  by (auto simp: Let_def split: option.splits)

lemma content_event_no_nl: "content_event line v \<Longrightarrow> 10 \<notin> set line"
  by (simp add: content_event_def)

lemma process_lines_events:
  "list_all2 content_event events contents \<Longrightarrow>
     process_lines (events @ rest) = (contents @ fst (process_lines rest), snd (process_lines rest))"
  by (induction events contents rule: list_all2_induct)
     (simp_all add: content_event_Yield case_prod_unfold)

lemma sentinel_no_nl: "10 \<notin> set (str ''data: [DONE]'')"
  by (simp add: str_def)

lemma complete_lines_ends_nl: "complete_lines (s @ [10]) \<noteq> []"
proof -
  have "split_nl (s @ [10]) = butlast (split_nl s) @ split_nl (last (split_nl s) @ [10])"
    by (rule split_nl_append)
  moreover have "split_nl (last (split_nl s) @ [10]) = [last (split_nl s), []]"
    using split_nl_line[OF last_split_nl_no_nl, of s "[]"] by simp
  ultimately show ?thesis by (simp add: complete_lines_def butlast_append)
qed

lemma prefix_of_snoc:
  assumes "xs @ ys = zs @ [z]" "ys \<noteq> []"
  shows "\<exists>n. xs = take n zs"
proof -
  from assms(2) obtain ys' y where ys: "ys = ys' @ [y]" by (cases ys rule: rev_cases) auto
  then have "xs @ ys' = zs" using assms(1) by simp
  then have "xs = take (length xs) zs" by auto
  then show ?thesis ..
qed

lemma list_all2_take_events:
  "list_all2 content_event events contents \<Longrightarrow>
     process_lines (take n events) = (take n contents, False)"
proof -
  assume a: "list_all2 content_event events contents"
  then have "list_all2 content_event (take n events) (take n contents)"
    by (rule list_all2_takeI)
  from process_lines_events[OF this, of "[]"] show ?thesis by simp
qed

lemma proper_prefix:
  assumes "p @ a = l @ b" "length p < length l"
  shows "\<exists>x. l = p @ x \<and> x \<noteq> []"
proof -
  have "take (length p) (p @ a) = take (length p) (l @ b)" using assms(1) by simp
  then have "p = take (length p) l" using assms(2) by simp
  then have "l = p @ drop (length p) l" by (metis append_take_drop_id)
  moreover have "drop (length p) l \<noteq> []" using assms(2) by simp
  ultimately show ?thesis by blast
qed

lemma stream_loop_chunks_start:
  "(case process_lines (complete_lines (concat (decode_all d chunks))) of
      (ys, returned) \<Rightarrow>
        (returned \<longrightarrow>
           fragments (stream_loop d [] (map Chunk chunks @ rest)) = ys
           \<and> outcome (stream_loop d [] (map Chunk chunks @ rest)) = Completed
           \<and> reads_made (stream_loop d [] (map Chunk chunks @ rest)) \<le> length chunks)
        \<and> (\<not> returned \<longrightarrow>
           stream_loop d [] (map Chunk chunks @ rest) =
             (let r = stream_loop (decoder_after d chunks)
                        (last (split_nl (concat (decode_all d chunks)))) rest
              in r\<lparr> fragments := ys @ fragments r,
                     reads_made := length chunks + reads_made r \<rparr>)))"
  using stream_loop_chunks[of "[]" d chunks rest] by simp

lemma content_event_hi:
  "content_event (str ''data: {\"choices\":[{\"delta\":{\"content\":\"Hi\"}}]}'') (JString (str ''Hi''))"
  by (simp add: content_event_def line_eval json_eval)

lemma decode_sentinel_example:
  "decode_all new_TextDecoder
     [butlast hi_event @ [10] @ ascii_bytes ''data: [DO'', ascii_bytes ''NE]'' @ [10] @ hi_event]
   = [str ''data: {\"choices\":[{\"delta\":{\"content\":\"Hi\"}}]}'' @ [10] @ str ''data: [DO'',
      str ''NE]'' @ [10] @ str ''data: {\"choices\":[{\"delta\":{\"content\":\"Hi\"}}]}'' @ [10]]"
  by (simp add: hi_event_def decode_eval str_def)

lemma process_lines_returned:
  "snd (process_lines ls) \<longleftrightarrow> str ''data: [DONE]'' \<in> set ls"
proof (induction ls)
  case Nil
  then show ?case by simp
next
  case (Cons a ls)
  have s: "process_line (str ''data: [DONE]'') = Return" by (simp add: process_line_Return)
  show ?case
  proof (cases "process_line a")
    case Return
    then show ?thesis using process_line_Return[of a] by simp
  next
    case (Yield x)
    then have "a \<noteq> str ''data: [DONE]''" using s by auto
    then show ?thesis using Yield Cons by (simp add: case_prod_unfold)
  next
    case Nothing
    then have "a \<noteq> str ''data: [DONE]''" using s by auto
    then show ?thesis using Nothing Cons by simp
  qed
qed

lemma complete_lines_partial: "10 \<notin> set partial \<Longrightarrow> complete_lines (body @ partial) = complete_lines body"
proof -
  assume a: "10 \<notin> set partial"
  have "10 \<notin> set (last (split_nl body) @ partial)" using a last_split_nl_no_nl by simp
  then show ?thesis
    unfolding complete_lines_append[of body partial] by (simp add: complete_lines_no_nl)
qed

subsection \<open>Errors of the transport and malformed events\<close>

lemma get_prop_error_cases:
  "get_prop e name = Inl t \<longleftrightarrow> e = JNull \<and> t = TypeError"
  by (cases e) auto

lemma error_message_object:
  assumes "json_body r = Some (JObject [(str ''error'', JObject [(str ''message'', m)])])" "truthy m"
  shows "error_message r = Inr m"
  using assms by (cases m) (simp_all add: error_message_def get_optional_def str_def)

lemma error_message_no_body:
  assumes "json_body r = None"
  shows "error_message r = Inr (JString (str ''Chat request failed: '' @ decimal (status r)))"
  using assms by (simp add: error_message_def get_optional_def)

lemma error_message_null:
  assumes "json_body r = Some JNull"
  shows "error_message r = Inl TypeError"
  using assms by (simp add: error_message_def)

lemma error_message_total:
  "json_body r \<noteq> Some JNull \<Longrightarrow> \<exists>m. error_message r = Inr m"
  unfolding error_message_def Let_def
  by (auto simp: get_prop_error_cases get_optional_def
           split: option.splits sum.splits json.splits)

lemma streamChat_not_ok:
  assumes "\<not> ok r"
  shows "streamChat (Resolved r) =
           \<lparr> fragments = [],
             outcome = Threw (case error_message r of Inl e \<Rightarrow> e | Inr m \<Rightarrow> NewError m),
             reads_made = 0 \<rparr>"
  using assms by (simp add: streamChat_def split: sum.splits)

lemma streamChat_no_body:
  assumes "ok r" "\<not> has_body r"
  shows "streamChat (Resolved r) =
           \<lparr> fragments = [],
             outcome = Threw (NewError (JString (str ''Response body is not readable''))),
             reads_made = 0 \<rparr>"
  using assms by (simp add: streamChat_def)

lemma malformed_line_skipped:
  assumes "JSON_parse payload = None" "payload \<noteq> str ''[DONE]''"
  shows "process_line (str ''data: '' @ payload) = Nothing"
  using assms by (simp add: process_line_def str_def)

lemma malformed_example: "JSON_parse (str ''{not valid json}'') = None"
  by (simp add: json_eval)

lemma malformed_between_events:
  assumes "list_all2 content_event before_events before_contents"
    "list_all2 content_event after_events after_contents"
    "JSON_parse payload = None" "payload \<noteq> str ''[DONE]''" "10 \<notin> set payload"
    "snd (decode new_TextDecoder (concat chunks))
       = lines_text (before_events @ [str ''data: '' @ payload] @ after_events)"
  shows "fragments (streamChat (ok_response (map Chunk chunks))) = before_contents @ after_contents
         \<and> outcome (streamChat (ok_response (map Chunk chunks))) = Completed"
proof -
  let ?ls = "before_events @ [str ''data: '' @ payload] @ after_events"
  have nl: "\<forall>l\<in>set ?ls. 10 \<notin> set l"
  proof
    fix l assume "l \<in> set ?ls"
    then consider "l \<in> set before_events" | "l = str ''data: '' @ payload" | "l \<in> set after_events"
      by auto
    then show "10 \<notin> set l"
    proof cases
      case 1
      then obtain i where "i < length before_events" "before_events ! i = l"
        by (auto simp: in_set_conv_nth)
      then have "content_event l (before_contents ! i)" using assms(1) by (auto dest: list_all2_nthD)
      then show ?thesis by (rule content_event_no_nl)
    next
      case 2
      then show ?thesis using assms(5) by (simp add: str_def)
    next
      case 3
      then obtain i where "i < length after_events" "after_events ! i = l"
        by (auto simp: in_set_conv_nth)
      then have "content_event l (after_contents ! i)" using assms(2) by (auto dest: list_all2_nthD)
      then show ?thesis by (rule content_event_no_nl)
    qed
  qed
  have "split_nl (lines_text ?ls @ []) = ?ls @ split_nl []"
    by (rule split_nl_lines_text[OF nl])
  then have "split_nl (lines_text ?ls) = ?ls @ [[]]" by simp
  then have "butlast (split_nl (lines_text ?ls)) = ?ls" by (simp only: butlast_snoc)
  then have cl: "complete_lines (lines_text ?ls) = ?ls" by (simp only: complete_lines_def)
  have "process_lines ?ls = (before_contents @ after_contents, False)"
    using process_lines_events[OF assms(1), of "[str ''data: '' @ payload] @ after_events"]
      process_lines_events[OF assms(2), of "[]"] malformed_line_skipped[OF assms(3,4)]
    by simp
  then show ?thesis
    using streamChat_chunks[of chunks] unfolding assms(6) cl by simp
qed


section \<open>The claims about the stream decoder\<close>

text \<open>
  Claim C1. The fragments and the way the generator ends do not depend on how the bytes
  are cut into chunks: two lists of chunks with the same bytes in all give the same
  fragments and the same end. The event line
  \<open>data: {"choices":[{"delta":{"content":"Hi"}}]}\<close> with its line feed, cut into two
  chunks after any number \<open>k\<close> of bytes, gives the one fragment \<open>Hi\<close> and completes, as
  it does in one chunk.
\<close>

theorem chunking_invariance:
  "(concat chunks = concat chunks' \<longrightarrow>
      fragments (streamChat (ok_response (map Chunk chunks)))
        = fragments (streamChat (ok_response (map Chunk chunks')))
      \<and> outcome (streamChat (ok_response (map Chunk chunks)))
        = outcome (streamChat (ok_response (map Chunk chunks'))))
   \<and> fragments (streamChat (ok_response [Chunk (take k hi_event), Chunk (drop k hi_event)]))
       = [JString (str ''Hi'')]
   \<and> outcome (streamChat (ok_response [Chunk (take k hi_event), Chunk (drop k hi_event)]))
       = Completed
   \<and> streamChat (ok_response [Chunk hi_event])
       = \<lparr> fragments = [JString (str ''Hi'')], outcome = Completed, reads_made = 2 \<rparr>"
proof -
  have two: "concat [take k hi_event, drop k hi_event] = hi_event" by simp
  have "fragments (streamChat (ok_response (map Chunk [take k hi_event, drop k hi_event])))
          = [JString (str ''Hi'')]
        \<and> outcome (streamChat (ok_response (map Chunk [take k hi_event, drop k hi_event])))
          = Completed"
    unfolding streamChat_chunks[THEN conjunct1] streamChat_chunks[THEN conjunct2] two
    by (simp add: decode_hi_event process_hi_event)
  then show ?thesis
    using streamChat_hi_event by (simp add: streamChat_chunks)
qed

theorem chunking_invariance_witness:
  "concat [take 7 hi_event, drop 7 hi_event] = concat [hi_event]
   \<and> fragments (streamChat (ok_response (map Chunk [take 7 hi_event, drop 7 hi_event])))
       = fragments (streamChat (ok_response (map Chunk [hi_event])))
   \<and> fragments (streamChat (ok_response [Chunk (take 7 hi_event), Chunk (drop 7 hi_event)]))
       = [JString (str ''Hi'')]
   \<and> take 7 hi_event = ascii_bytes ''data: {''"
proof -
  have c: "concat [take 7 hi_event, drop 7 hi_event] = concat [hi_event]" by simp
  have t: "take 7 hi_event = ascii_bytes ''data: {''"
    by (simp add: hi_event_def ascii_bytes_def)
  show ?thesis
    using chunking_invariance[of "[take 7 hi_event, drop 7 hi_event]" "[hi_event]" 7] c t
    by simp
qed

text \<open>
  Claim C7. Let the chunks up to and including \<open>c\<close> decode to the lines of \<open>N\<close> content
  events, the line \<open>data: [DONE]\<close> with its line feed, and any text \<open>tail\<close> after it, and
  let the sentinel line not be complete before \<open>c\<close>. Then the generator yields exactly the
  \<open>N\<close> contents, in order, and completes without an error; it has read one chunk for
  each of those and no more, whatever follows the sentinel in the chunk \<open>c\<close> (\<open>tail\<close>) and
  whatever the reader would give next (\<open>later\<close>).
\<close>

theorem sentinel_ends_stream:
  assumes ev: "list_all2 content_event events contents"
    and all: "concat (decode_all new_TextDecoder (before @ [c]))
               = lines_text events @ str ''data: [DONE]'' @ [10] @ tail"
    and bef: "length (concat (decode_all new_TextDecoder before))
               < length (lines_text events @ str ''data: [DONE]'' @ [10])"
  shows "streamChat (ok_response (map Chunk (before @ [c]) @ later))
         = \<lparr> fragments = contents, outcome = Completed, reads_made = length before + 1 \<rparr>"
proof -
  let ?d = new_TextDecoder
  let ?S = "str ''data: [DONE]''"
  let ?L = "lines_text events @ ?S @ [10]"
  let ?T = "concat (decode_all ?d (before @ [c]))"
  let ?P = "concat (decode_all ?d before)"
  let ?R = "stream_loop ?d [] (map Chunk (before @ [c]) @ later)"
  have nonl: "\<forall>l\<in>set events. 10 \<notin> set l"
  proof
    fix l assume "l \<in> set events"
    then obtain i where "i < length events" "events ! i = l" by (auto simp: in_set_conv_nth)
    then have "content_event l (contents ! i)" using ev by (auto dest: list_all2_nthD)
    then show "10 \<notin> set l" by (rule content_event_no_nl)
  qed
  \<comment> \<open>the lines of the whole text\<close>
  have "split_nl (?L @ tail) = events @ ?S # split_nl tail"
    using split_nl_lines_text[OF nonl, of "?S @ [10] @ tail"]
      split_nl_line[OF sentinel_no_nl, of tail] by simp
  then have clT: "complete_lines ?T = events @ ?S # complete_lines tail"
    using all by (simp add: complete_lines_def butlast_append)
  have "process_line ?S = Return" by (simp add: process_line_Return)
  then have pT: "process_lines (complete_lines ?T) = (contents, True)"
    unfolding clT using process_lines_events[OF ev, of "?S # complete_lines tail"] by simp
  from stream_loop_chunks_start[of ?d "before @ [c]" later, unfolded pT]
  have r1: "fragments ?R = contents" "outcome ?R = Completed" "reads_made ?R \<le> length before + 1"
    by simp_all
  \<comment> \<open>the lines of the text before the last chunk\<close>
  have "?T = ?P @ snd (decode (decoder_after ?d before) c)"
    by (simp add: decode_all_concat decoder_after_concat decode_append case_prod_unfold Let_def)
  then have "?P @ snd (decode (decoder_after ?d before) c) = ?L @ tail" using all by simp
  then obtain x where x: "?L = ?P @ x" "x \<noteq> []"
    using proper_prefix[OF _ bef] by blast
  then obtain x' where x': "x = x' @ [10]"
    by (cases x rule: rev_cases) auto
  have clL: "complete_lines ?L = events @ [?S]"
    using split_nl_lines_text[OF nonl, of "?S @ [10]"] split_nl_line[OF sentinel_no_nl, of "[]"]
    by (simp add: complete_lines_def butlast_append)
  have "complete_lines ?L = complete_lines ?P @ complete_lines (last (split_nl ?P) @ x)"
    unfolding x(1) by (rule complete_lines_append)
  moreover have "complete_lines (last (split_nl ?P) @ x) \<noteq> []"
    using complete_lines_ends_nl[of "last (split_nl ?P) @ x'"] x' by simp
  ultimately obtain n where n: "complete_lines ?P = take n events"
    using clL prefix_of_snoc[of "complete_lines ?P" _ events ?S] by metis
  have pP: "process_lines (complete_lines ?P) = (take n contents, False)"
    using n list_all2_take_events[OF ev] by simp
  from stream_loop_chunks_start[of ?d before "Chunk c # later", unfolded pP]
  have "reads_made (stream_loop ?d [] (map Chunk before @ Chunk c # later))
        = length before
          + reads_made (stream_loop (decoder_after ?d before) (last (split_nl ?P)) (Chunk c # later))"
    by (simp add: Let_def)
  then have "length before + 1 \<le> reads_made ?R"
    using reads_made_pos[of "decoder_after ?d before" "last (split_nl ?P)" "Chunk c # later"]
    by simp
  then have "reads_made ?R = length before + 1" using r1(3) by simp
  then show ?thesis using r1 by (simp add: streamChat_ok)
qed

theorem sentinel_ends_stream_witness:
  "list_all2 content_event [str ''data: {\"choices\":[{\"delta\":{\"content\":\"Hi\"}}]}'']
      [JString (str ''Hi'')]
   \<and> concat (decode_all new_TextDecoder
        ([butlast hi_event @ [10] @ ascii_bytes ''data: [DO''] @ [ascii_bytes ''NE]'' @ [10] @ hi_event]))
      = lines_text [str ''data: {\"choices\":[{\"delta\":{\"content\":\"Hi\"}}]}'']
        @ str ''data: [DONE]'' @ [10]
        @ (str ''data: {\"choices\":[{\"delta\":{\"content\":\"Hi\"}}]}'' @ [10])
   \<and> length (concat (decode_all new_TextDecoder [butlast hi_event @ [10] @ ascii_bytes ''data: [DO'']))
      < length (lines_text [str ''data: {\"choices\":[{\"delta\":{\"content\":\"Hi\"}}]}'']
                @ str ''data: [DONE]'' @ [10])
   \<and> streamChat (ok_response
        (map Chunk ([butlast hi_event @ [10] @ ascii_bytes ''data: [DO'']
                    @ [ascii_bytes ''NE]'' @ [10] @ hi_event])
         @ [Chunk hi_event, ReadRejected (str ''TypeError'') (str ''network error'')]))
      = \<lparr> fragments = [JString (str ''Hi'')], outcome = Completed, reads_made = 2 \<rparr>"
proof -
  let ?e = "str ''data: {\"choices\":[{\"delta\":{\"content\":\"Hi\"}}]}''"
  let ?b = "butlast hi_event @ [10] @ ascii_bytes ''data: [DO''"
  let ?c = "ascii_bytes ''NE]'' @ [10] @ hi_event"
  have h1: "list_all2 content_event [?e] [JString (str ''Hi'')]"
    using content_event_hi by simp
  have h2: "concat (decode_all new_TextDecoder ([?b] @ [?c]))
            = lines_text [?e] @ str ''data: [DONE]'' @ [10] @ (?e @ [10])"
    using decode_sentinel_example by (simp add: lines_text_def str_def)
  have h3: "length (concat (decode_all new_TextDecoder [?b]))
            < length (lines_text [?e] @ str ''data: [DONE]'' @ [10])"
    by (simp add: hi_event_def decode_eval lines_text_def str_def)
  show ?thesis
    using sentinel_ends_stream[OF h1 h2 h3,
        of "[Chunk hi_event, ReadRejected (str ''TypeError'') (str ''network error'')]"] h1 h2 h3
    by simp
qed

text \<open>
  Claim C10. When the reader reports \<open>done\<close> and no complete line was the sentinel
  line, the generator completes without an error, after one read for each chunk and the
  one that reported \<open>done\<close>. The fragments are those of the complete lines only: what
  follows the last line feed (\<open>partial\<close>) is never looked at, and a complete content event
  without its line feed yields no fragment.
\<close>

theorem exhausted_source_completes:
  assumes "str ''data: [DONE]'' \<notin> set (complete_lines (concat (decode_all new_TextDecoder chunks)))"
  shows "outcome (streamChat (ok_response (map Chunk chunks))) = Completed
     \<and> reads_made (streamChat (ok_response (map Chunk chunks))) = length chunks + 1
     \<and> fragments (streamChat (ok_response (map Chunk chunks)))
         = fst (process_lines (complete_lines (concat (decode_all new_TextDecoder chunks))))
     \<and> (concat (decode_all new_TextDecoder chunks) = body @ partial \<and> 10 \<notin> set partial
          \<longrightarrow> fragments (streamChat (ok_response (map Chunk chunks)))
                = fst (process_lines (complete_lines body)))
     \<and> streamChat (ok_response [Chunk (butlast hi_event)])
         = \<lparr> fragments = [], outcome = Completed, reads_made = 2 \<rparr>"
proof -
  let ?T = "concat (decode_all new_TextDecoder chunks)"
  obtain ys where p: "process_lines (complete_lines ?T) = (ys, False)"
    using assms process_lines_returned[of "complete_lines ?T"]
    by (cases "process_lines (complete_lines ?T)") auto
  from stream_loop_chunks_start[of new_TextDecoder chunks "[]", unfolded p]
  have r: "stream_loop new_TextDecoder [] (map Chunk chunks)
           = \<lparr> fragments = ys, outcome = Completed, reads_made = length chunks + 1 \<rparr>"
    by simp
  have part: "?T = body @ partial \<and> 10 \<notin> set partial
          \<longrightarrow> fst (process_lines (complete_lines body)) = ys"
    using p complete_lines_partial[of partial body] by auto
  have ex: "streamChat (ok_response [Chunk (butlast hi_event)])
         = \<lparr> fragments = [], outcome = Completed, reads_made = 2 \<rparr>"
    unfolding streamChat_ok
    by (simp add: hi_event_def decode_eval split_nl_no_nl pop_buffer_def)
  show ?thesis using r p part ex by (simp add: streamChat_ok)
qed

theorem exhausted_source_completes_witness:
  "str ''data: [DONE]'' \<notin> set (complete_lines (concat (decode_all new_TextDecoder
       [hi_event, butlast hi_event])))
   \<and> concat (decode_all new_TextDecoder [hi_event, butlast hi_event])
       = (str ''data: {\"choices\":[{\"delta\":{\"content\":\"Hi\"}}]}'' @ [10])
         @ str ''data: {\"choices\":[{\"delta\":{\"content\":\"Hi\"}}]}''
   \<and> 10 \<notin> set (str ''data: {\"choices\":[{\"delta\":{\"content\":\"Hi\"}}]}'')
   \<and> streamChat (ok_response (map Chunk [hi_event, butlast hi_event]))
       = \<lparr> fragments = [JString (str ''Hi'')], outcome = Completed, reads_made = 3 \<rparr>"
proof -
  let ?e = "str ''data: {\"choices\":[{\"delta\":{\"content\":\"Hi\"}}]}''"
  let ?r = "streamChat (ok_response (map Chunk [hi_event, butlast hi_event]))"
  have d: "concat (decode_all new_TextDecoder [hi_event, butlast hi_event]) = (?e @ [10]) @ ?e"
    by (simp add: hi_event_def decode_eval str_def)
  have n: "10 \<notin> set ?e" by (simp add: str_def)
  have cl: "complete_lines ((?e @ [10]) @ ?e) = [?e]"
    using split_nl_line[OF n, of ?e] split_nl_no_nl[OF n] by (simp add: complete_lines_def)
  have h: "str ''data: [DONE]'' \<notin> set (complete_lines (concat (decode_all new_TextDecoder
       [hi_event, butlast hi_event])))"
    unfolding d cl by (simp add: str_def)
  have cl1: "complete_lines (?e @ [10]) = [?e]"
    using split_nl_line[OF n, of "[]"] by (simp add: complete_lines_def)
  have f: "fst (process_lines [?e]) = [JString (str ''Hi'')]"
    using process_hi_event unfolding cl1 by simp
  have "outcome ?r = Completed \<and> reads_made ?r = length [hi_event, butlast hi_event] + 1
        \<and> fragments ?r = fst (process_lines (complete_lines ((?e @ [10]) @ ?e)))"
    using exhausted_source_completes[OF h, of "?e @ [10]" ?e] unfolding d by blast
  then have "outcome ?r = Completed \<and> reads_made ?r = 3 \<and> fragments ?r = [JString (str ''Hi'')]"
    unfolding cl f by simp
  then have "?r = \<lparr> fragments = [JString (str ''Hi'')], outcome = Completed, reads_made = 3 \<rparr>"
    by (cases ?r) simp
  then show ?thesis using h d n by simp
qed

text \<open>
  Claim C8 holds but for one reply: a response that is not \<open>ok\<close> and whose body is the JSON
  value \<open>null\<close>. There \<open>response.json()\<close> resolves to \<open>null\<close>, the fallback \<open>{}\<close> of the
  \<open>catch\<close> is not taken, and reading \<open>error.error\<close> throws a \<open>TypeError\<close>, where a reply
  without a usable body throws the error with the status-coded message. (The other parts
  of the claim are the lemmas \<open>streamChat_not_ok\<close>, \<open>error_message_object\<close>,
  \<open>error_message_no_body\<close>, \<open>streamChat_no_body\<close> and \<open>malformed_between_events\<close>.)
\<close>

theorem error_body_null_throws_TypeError:
  "streamChat (Resolved \<lparr> ok = False, status = 500, json_body = Some JNull, has_body = True,
                          reads = rs \<rparr>)
     = \<lparr> fragments = [], outcome = Threw TypeError, reads_made = 0 \<rparr>
   \<and> streamChat (Resolved \<lparr> ok = False, status = 500, json_body = None, has_body = True,
                            reads = rs \<rparr>)
     = \<lparr> fragments = [],
         outcome = Threw (NewError (JString (str ''Chat request failed: 500''))),
         reads_made = 0 \<rparr>"
  by (simp add: streamChat_def error_message_def get_optional_def str_def)


section \<open>Facts about the orchestrator\<close>

subsection \<open>Timers\<close>

lemma idle_timer_fires_fields:
  "messages (idle_timer_fires s) = messages s"
  "requests (idle_timer_fires s) = requests s"
  "saved (idle_timer_fires s) = saved s"
  "isLoading (idle_timer_fires s) = isLoading s"
  "isStreaming (idle_timer_fires s) = isStreaming s"
  "input (idle_timer_fires s) = input s"
  "apiKey (idle_timer_fires s) = apiKey s"
  "selectedModel (idle_timer_fires s) = selectedModel s"
  by (simp_all add: idle_timer_fires_def setBuddyMood_def)

lemma await_point_fields:
  "messages (await_point k s) = messages s"
  "requests (await_point k s) = requests s"
  "saved (await_point k s) = saved s"
  "isLoading (await_point k s) = isLoading s"
  "isStreaming (await_point k s) = isStreaming s"
  "input (await_point k s) = input s"
  "apiKey (await_point k s) = apiKey s"
  "selectedModel (await_point k s) = selectedModel s"
  by (induction k arbitrary: s) (simp_all add: idle_timer_fires_fields)

lemma await_point_mood:
  "buddyMood (await_point k s) = buddyMood s \<or> buddyMood (await_point k s) = Idle"
proof (induction k arbitrary: s)
  case 0
  then show ?case by simp
next
  case (Suc k)
  have "buddyMood (idle_timer_fires s) = buddyMood s \<or> buddyMood (idle_timer_fires s) = Idle"
    by (simp add: idle_timer_fires_def setBuddyMood_def)
  then show ?case using Suc.IH[of "idle_timer_fires s"] by auto
qed

lemma await_point_no_timer: "idle_timers s = 0 \<Longrightarrow> await_point k s = s"
  by (induction k) (simp_all add: idle_timer_fires_def)

subsection \<open>The loop over the fragments\<close>

text \<open>One round of the loop, in three steps.\<close>

lemma consume_step:
  "consume t i acc (c # cs) s
   = consume t (Suc i) (acc @ c) cs
       ((if analyzeStreamingEmotion (acc @ c) Talking \<noteq> Talking
         then setBuddyMood (analyzeStreamingEmotion (acc @ c) Talking)
                (await_point (elapsed t i) s)
         else await_point (elapsed t i) s)
        \<lparr>messages := map (set_content (assistantMsgId t) (acc @ c))
                       (messages (await_point (elapsed t i) s))\<rparr>)"
  by (simp add: Let_def set_content_def[abs_def] setBuddyMood_def)

lemma consume_fst: "fst (consume t i acc frs s) = acc @ concat frs"
  by (induction frs arbitrary: i acc s) (simp_all add: Let_def)

lemma consume_other_fields:
  "requests (snd (consume t i acc frs s)) = requests s"
  "saved (snd (consume t i acc frs s)) = saved s"
  "isLoading (snd (consume t i acc frs s)) = isLoading s"
  "isStreaming (snd (consume t i acc frs s)) = isStreaming s"
  "input (snd (consume t i acc frs s)) = input s"
  "apiKey (snd (consume t i acc frs s)) = apiKey s"
  "selectedModel (snd (consume t i acc frs s)) = selectedModel s"
  by (induction frs arbitrary: i acc s)
     (simp_all add: Let_def setBuddyMood_def await_point_fields)

lemma set_content_twice: "set_content aid t2 (set_content aid t1 m) = set_content aid t2 m"
  by (simp add: set_content_def)

lemma consume_messages:
  "messages (snd (consume t i acc frs s))
     = (if frs = [] then messages s
        else map (set_content (assistantMsgId t) (acc @ concat frs)) (messages s))"
proof (induction frs arbitrary: i acc s)
  case Nil
  then show ?case by simp
next
  case (Cons c cs)
  show ?case
    unfolding consume_step Cons.IH
    by (simp add: set_content_twice comp_def await_point_fields)
qed

text \<open>The mood after the loop is the mood before it, \<open>idle\<close>, or one the detector
  inferred from the text so far; with no timer running it is the last inferred mood
  other than \<open>talking\<close>, or the mood before the loop.\<close>

lemma consume_mood_cases:
  "buddyMood (snd (consume t i acc frs s))
     \<in> insert (buddyMood s) (insert Idle
          (set (map (\<lambda>x. analyzeStreamingEmotion x Talking) (accumulated acc frs))))"
proof (induction frs arbitrary: i acc s)
  case Nil
  then show ?case by simp
next
  case (Cons c cs)
  let ?d = "analyzeStreamingEmotion (acc @ c) Talking"
  let ?s0 = "await_point (elapsed t i) s"
  let ?s2 = "(if ?d \<noteq> Talking then setBuddyMood ?d ?s0 else ?s0)
               \<lparr>messages := map (set_content (assistantMsgId t) (acc @ c)) (messages ?s0)\<rparr>"
  have m0: "buddyMood ?s0 = buddyMood s \<or> buddyMood ?s0 = Idle"
    by (rule await_point_mood)
  have m2: "buddyMood ?s2 = buddyMood ?s0 \<or> buddyMood ?s2 = ?d"
    by (simp add: setBuddyMood_def)
  have "buddyMood (snd (consume t (Suc i) (acc @ c) cs ?s2))
        \<in> insert (buddyMood ?s2) (insert Idle
            (set (map (\<lambda>x. analyzeStreamingEmotion x Talking) (accumulated (acc @ c) cs))))"
    by (rule Cons.IH)
  then show ?case
    unfolding consume_step using m0 m2 by auto
qed

lemma consume_step_no_timer:
  assumes "idle_timers s = 0"
  shows "consume t i acc (c # cs) s
   = consume t (Suc i) (acc @ c) cs
       ((if analyzeStreamingEmotion (acc @ c) Talking \<noteq> Talking
         then setBuddyMood (analyzeStreamingEmotion (acc @ c) Talking) s
         else s)
        \<lparr>messages := map (set_content (assistantMsgId t) (acc @ c)) (messages s)\<rparr>)"
  by (simp only: consume_step await_point_no_timer[OF assms])

lemma consume_no_timers_left:
  "idle_timers s = 0 \<Longrightarrow> idle_timers (snd (consume t i acc frs s)) = 0"
proof (induction frs arbitrary: i acc s)
  case Nil
  then show ?case by simp
next
  case (Cons c cs)
  show ?case
    unfolding consume_step_no_timer[OF Cons.prems]
    by (rule Cons.IH) (simp add: Cons.prems setBuddyMood_def)
qed

lemma consume_no_timer:
  "idle_timers s = 0 \<Longrightarrow>
   buddyMood (snd (consume t i acc frs s))
     = last (buddyMood s # filter (\<lambda>d. d \<noteq> Talking)
               (map (\<lambda>x. analyzeStreamingEmotion x Talking) (accumulated acc frs)))"
proof (induction frs arbitrary: i acc s)
  case Nil
  then show ?case by simp
next
  case (Cons c cs)
  let ?d = "analyzeStreamingEmotion (acc @ c) Talking"
  let ?s2 = "(if ?d \<noteq> Talking then setBuddyMood ?d s else s)
               \<lparr>messages := map (set_content (assistantMsgId t) (acc @ c)) (messages s)\<rparr>"
  have z: "idle_timers ?s2 = 0" using Cons.prems by (simp add: setBuddyMood_def)
  show ?case
    unfolding consume_step_no_timer[OF Cons.prems] Cons.IH[OF z]
    by (simp add: setBuddyMood_def)
qed


lemma slice_last_facts:
  "length (slice_last n xs) = min n (length xs)"
  "xs = take (length xs - n) xs @ slice_last n xs"
  "length xs \<le> n \<Longrightarrow> slice_last n xs = xs"
  by (simp_all add: slice_last_def)

lemma before_try_fields:
  "messages (before_try t s) = messages s @ [user_message t s]"
  "requests (before_try t s) = requests s"
  "saved (before_try t s) = saved s @ [\<lparr> role = User, content = trim (input s) \<rparr>]"
  "apiKey (before_try t s) = apiKey s"
  "selectedModel (before_try t s) = selectedModel s"
  by (simp_all add: before_try_def until_user_save_def Let_def await_point_fields
      addMessage_def setBuddyMood_def user_message_def)

lemma before_try_no_timer: "idle_timers s = 0 \<Longrightarrow> idle_timers (before_try t s) = 0"
  by (simp add: before_try_def until_user_save_def Let_def await_point_no_timer
      addMessage_def setBuddyMood_def)

lemma stream_phase_state:
  assumes fresh: "fresh_assistant_id t s"
  shows "messages (snd (stream_phase t (before_try t s) h))
           = messages s @ [user_message t s, assistant_message t]"
    and "requests (snd (stream_phase t (before_try t s) h)) = requests s
           @ [\<lparr> req_apiKey = (case apiKey s of None \<Rightarrow> [] | Some k \<Rightarrow> k),
                req_model = (case selectedModel s of None \<Rightarrow> [] | Some m \<Rightarrow> m),
                req_messages = h \<rparr>]"
    and "saved (snd (stream_phase t (before_try t s) h))
           = saved s @ [\<lparr> role = User, content = trim (input s) \<rparr>]"
    and "fst (stream_phase t (before_try t s) h) = concat (stream_fragments t)"
proof -
  have ids: "\<forall>m\<in>set (messages s). msg_id m \<noteq> assistantMsgId t" "assistantMsgId t \<noteq> userMsgId t"
    using fresh by (simp_all add: fresh_assistant_id_def list_all_iff)
  then have keep: "map (set_content (assistantMsgId t) x) (messages s) = messages s" for x
    by (intro map_idI) (simp add: set_content_def)
  show "messages (snd (stream_phase t (before_try t s) h))
           = messages s @ [user_message t s, assistant_message t]"
    unfolding stream_phase_def
    using ids(2) keep
    by (simp add: Let_def case_prod_unfold consume_messages await_point_fields
        before_try_fields addMessage_def setBuddyMood_def user_message_def
        assistant_message_def set_content_def)
  show "requests (snd (stream_phase t (before_try t s) h)) = requests s
           @ [\<lparr> req_apiKey = (case apiKey s of None \<Rightarrow> [] | Some k \<Rightarrow> k),
                req_model = (case selectedModel s of None \<Rightarrow> [] | Some m \<Rightarrow> m),
                req_messages = h \<rparr>]"
    unfolding stream_phase_def
    by (simp add: Let_def case_prod_unfold consume_other_fields await_point_fields
        before_try_fields addMessage_def setBuddyMood_def)
  show "saved (snd (stream_phase t (before_try t s) h))
           = saved s @ [\<lparr> role = User, content = trim (input s) \<rparr>]"
    unfolding stream_phase_def
    by (simp add: Let_def case_prod_unfold consume_other_fields await_point_fields
        before_try_fields addMessage_def setBuddyMood_def)
  show "fst (stream_phase t (before_try t s) h) = concat (stream_fragments t)"
    unfolding stream_phase_def by (simp add: Let_def case_prod_unfold consume_fst)
qed

text \<open>The mood when the stream has ended: \<open>talking\<close>, \<open>idle\<close> or a mood the detector
  inferred from the text so far; with no timer running, the last inferred mood other
  than \<open>talking\<close>, or \<open>talking\<close>.\<close>

lemma stream_phase_mood_cases:
  "buddyMood (snd (stream_phase t s0 h))
     \<in> insert Talking (insert Idle (set (inferred_moods (stream_fragments t))))"
proof -
  define s1 where "s1 = (addMessage \<lparr> role = Assistant, content = [], msg_id = assistantMsgId t,
                           timestamp = now_assistant t \<rparr>
                          (setBuddyMood Talking (s0\<lparr>isStreaming := True\<rparr>)))
        \<lparr>requests := requests s0
                  @ [\<lparr> req_apiKey = (case apiKey s0 of None \<Rightarrow> [] | Some k \<Rightarrow> k),
                       req_model = (case selectedModel s0 of None \<Rightarrow> [] | Some m \<Rightarrow> m),
                       req_messages = h \<rparr>]\<rparr>"
  define s2 where "s2 = snd (consume t 1 [] (stream_fragments t) s1)"
  have sp: "snd (stream_phase t s0 h)
            = await_point (elapsed t (length (stream_fragments t) + 1)) s2"
    by (simp add: stream_phase_def Let_def case_prod_unfold s2_def s1_def addMessage_def
        setBuddyMood_def)
  have "buddyMood s1 = Talking" by (simp add: s1_def addMessage_def setBuddyMood_def)
  then have "buddyMood s2 \<in> insert Talking (insert Idle (set (inferred_moods (stream_fragments t))))"
    using consume_mood_cases[of t 1 "[]" "stream_fragments t" s1]
    by (simp add: s2_def inferred_moods_def)
  then show ?thesis
    unfolding sp
    using await_point_mood[of "elapsed t (length (stream_fragments t) + 1)" s2] by auto
qed

lemma stream_phase_mood_no_timer:
  assumes "idle_timers s0 = 0"
  shows "buddyMood (snd (stream_phase t s0 h)) = streamed_mood (stream_fragments t)"
proof -
  define s1 where "s1 = (addMessage \<lparr> role = Assistant, content = [], msg_id = assistantMsgId t,
                           timestamp = now_assistant t \<rparr>
                          (setBuddyMood Talking (s0\<lparr>isStreaming := True\<rparr>)))
        \<lparr>requests := requests s0
                  @ [\<lparr> req_apiKey = (case apiKey s0 of None \<Rightarrow> [] | Some k \<Rightarrow> k),
                       req_model = (case selectedModel s0 of None \<Rightarrow> [] | Some m \<Rightarrow> m),
                       req_messages = h \<rparr>]\<rparr>"
  define s2 where "s2 = snd (consume t 1 [] (stream_fragments t) s1)"
  have sp: "snd (stream_phase t s0 h)
            = await_point (elapsed t (length (stream_fragments t) + 1)) s2"
    by (simp add: stream_phase_def Let_def case_prod_unfold s2_def s1_def addMessage_def
        setBuddyMood_def)
  have z: "idle_timers s1 = 0" "buddyMood s1 = Talking"
    using assms by (simp_all add: s1_def addMessage_def setBuddyMood_def)
  have "idle_timers s2 = 0"
    unfolding s2_def by (rule consume_no_timers_left[OF z(1)])
  then have "snd (stream_phase t s0 h) = s2"
    unfolding sp by (rule await_point_no_timer)
  then show ?thesis
    using consume_no_timer[OF z(1), of t 1 "[]" "stream_fragments t"] z(2)
    by (simp add: s2_def streamed_mood_def inferred_moods_def)
qed

lemma stream_phase_requests:
  "requests (snd (stream_phase t (before_try t s) h)) = requests s
           @ [\<lparr> req_apiKey = (case apiKey s of None \<Rightarrow> [] | Some k \<Rightarrow> k),
                req_model = (case selectedModel s of None \<Rightarrow> [] | Some m \<Rightarrow> m),
                req_messages = h \<rparr>]"
  unfolding stream_phase_def
  by (simp add: Let_def case_prod_unfold consume_other_fields await_point_fields
      before_try_fields addMessage_def setBuddyMood_def)

lemma handleSubmit_requests:
  assumes "can_submit s" "user_save t = None"
  shows "requests (handleSubmit t s) = requests s
           @ [\<lparr> req_apiKey = (case apiKey s of None \<Rightarrow> [] | Some k \<Rightarrow> k),
                req_model = (case selectedModel s of None \<Rightarrow> [] | Some m \<Rightarrow> m),
                req_messages = chatMessages s (trim (input s)) \<rparr>]"
proof -
  let ?h = "chatMessages s (trim (input s))"
  let ?p = "stream_phase t (before_try t s) ?h"
  have r: "requests (snd ?p) = requests s
           @ [\<lparr> req_apiKey = (case apiKey s of None \<Rightarrow> [] | Some k \<Rightarrow> k),
                req_model = (case selectedModel s of None \<Rightarrow> [] | Some m \<Rightarrow> m),
                req_messages = ?h \<rparr>]"
    by (rule stream_phase_requests)
  have "requests (handleSubmit t s) = requests (snd ?p)"
    using assms
    by (simp add: handleSubmit_def try_block_def Let_def case_prod_unfold finally_block_def
        catch_block_def addMessage_def setBuddyMood_def await_point_fields
        split: stream_end.splits option.splits)
  then show ?thesis using r by simp
qed

lemma handleSubmit_failed:
  assumes "can_submit s" "user_save t = None" "stream_end t = Failed e"
  shows "handleSubmit t s = finally_block (catch_block t e (state_at_stream_end t s))"
  using assms
  by (simp add: handleSubmit_def try_block_def Let_def case_prod_unfold
      state_at_stream_end_def)

lemma catch_block_abort: "exn_name e = ''AbortError'' \<Longrightarrow> catch_block t e s = s"
  by (simp add: catch_block_def)

lemma catch_block_failure:
  assumes "exn_name e \<noteq> ''AbortError''"
  shows "buddyMood (catch_block t e s) = Confused"
    and "messages (catch_block t e s) = messages s @ [error_indicator t e]"
  using assms
  by (simp_all add: catch_block_def addMessage_def setBuddyMood_def error_indicator_def)

lemma count_list_append: "count_list (xs @ ys) x = count_list xs x + count_list ys x"
  by (induction xs) auto

subsection \<open>The examples\<close>

lemmas space_eval = trim_def is_space_def

lemma example_facts:
  "trim (input example_state) = ''How are you?''"
  "can_submit example_state"
  "user_save example_turn = None"
  "user_save cancelled_turn = None"
  "user_save failed_turn = None"
  "user_save cancelled_confused_turn = None"
  "fresh_assistant_id cancelled_turn example_state"
  "fresh_assistant_id failed_turn example_state"
  "fresh_assistant_id cancelled_confused_turn example_state"
  "idle_timers example_state = 0"
  by (simp_all add: example_state_def example_turn_def cancelled_turn_def failed_turn_def
      cancelled_confused_turn_def can_submit_def fresh_assistant_id_def space_eval)

lemma pending_timer_facts:
  "trim (input pending_timer_state) = ''How are you?''"
  "can_submit pending_timer_state"
  "user_save cancelled_timer_turn = None"
  "fresh_assistant_id cancelled_timer_turn pending_timer_state"
  "stream_end cancelled_timer_turn = Failed (Exn ''AbortError'' ''The operation was aborted.'')"
  "messages pending_timer_state = messages example_state"
  by (simp_all add: pending_timer_state_def cancelled_timer_turn_def example_state_def
      example_turn_def cancelled_turn_def can_submit_def fresh_assistant_id_def space_eval)

lemma example_history:
  "chatMessages example_state (trim (input example_state))
   = [\<lparr> role = System, content = buildSystemPrompt Balanced None \<rparr>,
      \<lparr> role = User, content = ''Hello'' \<rparr>,
      \<lparr> role = Assistant, content = ''Hi there'' \<rparr>,
      \<lparr> role = User, content = ''How are you?'' \<rparr>]"
  unfolding example_facts(1)
  by (simp add: chatMessages_def example_state_def slice_last_def to_chat_def)

lemma long_history_facts:
  "length (messages long_history_state) = 22"
  "slice_last 20 (messages long_history_state) = drop 2 (messages long_history_state)"
  "can_submit long_history_state"
  "trim (input long_history_state) = ''How are you?''"
  by (simp_all add: long_history_state_def example_state_def slice_last_def can_submit_def
      space_eval eval_nat_numeral)

lemma long_history_request:
  "req_messages (last (requests (handleSubmit example_turn long_history_state)))
     = [\<lparr> role = System, content = buildSystemPrompt Balanced None \<rparr>]
       @ map to_chat (drop 2 (messages long_history_state))
       @ [\<lparr> role = User, content = ''How are you?'' \<rparr>]"
proof -
  have p: "personality long_history_state = Balanced" "userName long_history_state = None"
    by (simp_all add: long_history_state_def example_state_def)
  have "req_messages (last (requests (handleSubmit example_turn long_history_state)))
        = chatMessages long_history_state (trim (input long_history_state))"
    using handleSubmit_requests[OF long_history_facts(3) example_facts(3)] by simp
  then show ?thesis
    unfolding chatMessages_def long_history_facts(2,4) p by simp
qed

lemma confused_text_mood:
  "analyzeStreamingEmotion confused_text Talking = Confused"
proof -
  have "50 \<le> length confused_text" by (simp add: confused_text_def)
  moreover have "detectEmotion confused_text = Some Confused"
    unfolding detectEmotion_def confused_text_def best_of_long_example by simp
  ultimately show ?thesis by (simp add: analyzeStreamingEmotion_def)
qed

lemma short_text_mood: "analyzeStreamingEmotion ''I am '' Talking = Talking"
  by (simp add: analyzeStreamingEmotion_def)

lemma confused_text_inferred: "inferred_moods [confused_text] = [Confused]"
  by (simp add: inferred_moods_def confused_text_mood)

text \<open>In the cancelled turn with a running timer, the timer runs out during the wait for
  the end of the stream, and the mood is \<open>idle\<close> when the abort arrives.\<close>

lemma pending_timer_mood:
  "buddyMood (state_at_stream_end cancelled_timer_turn pending_timer_state) = Idle"
proof -
  have f: "stream_fragments cancelled_timer_turn = [''I am '']"
    "timers_elapsed cancelled_timer_turn = [0, 0, 1]"
    by (simp_all add: cancelled_timer_turn_def cancelled_turn_def example_turn_def)
  have e: "elapsed cancelled_timer_turn 0 = 0" "elapsed cancelled_timer_turn (Suc 0) = 0"
    "elapsed cancelled_timer_turn (Suc (Suc 0)) = Suc 0"
    by (simp_all add: elapsed_def f)
  have i: "idle_timers pending_timer_state = 1"
    by (simp add: pending_timer_state_def)
  show ?thesis
    unfolding state_at_stream_end_def stream_phase_def before_try_def until_user_save_def f
    by (simp add: Let_def e i short_text_mood idle_timer_fires_def addMessage_def
        setBuddyMood_def)
qed

text \<open>A mood the detector inferred from the partial text stays when the turn is
  cancelled afterwards: here the text reads \<open>confused\<close>, and the cancelled turn ends with
  the mood that streaming had set.\<close>

lemma inferred_mood_stays_when_cancelled:
  "buddyMood (state_at_stream_end cancelled_confused_turn example_state) = Confused
   \<and> buddyMood (handleSubmit cancelled_confused_turn example_state) = Confused"
proof -
  have e: "stream_end cancelled_confused_turn
           = Failed (Exn ''AbortError'' ''The operation was aborted.'')"
    "stream_fragments cancelled_confused_turn = [confused_text]"
    by (simp_all add: cancelled_confused_turn_def example_turn_def)
  have a: "buddyMood (state_at_stream_end cancelled_confused_turn example_state) = Confused"
    unfolding state_at_stream_end_def
      stream_phase_mood_no_timer[OF before_try_no_timer[OF example_facts(10)]]
    by (simp add: e streamed_mood_def confused_text_inferred)
  have "handleSubmit cancelled_confused_turn example_state
        = finally_block (state_at_stream_end cancelled_confused_turn example_state)"
    unfolding handleSubmit_failed[OF example_facts(2,6) e(1)]
    by (simp add: catch_block_abort)
  then show ?thesis using a by (simp add: finally_block_def)
qed

section \<open>The claims about the orchestrator\<close>

text \<open>
  Claim C5, as stated, fails: the text sent for the user is the input without the white
  space at its ends, not the input as typed; and when a prior message in the window has
  the same role and text, the new message's text is in the list twice. The cap counts
  messages, not exchanges: after eleven exchanges, 22 messages, the first exchange is
  left out.
\<close>

theorem outgoing_request_messages_counterexample:
  "input example_state = ''  How are you?  ''
   \<and> req_messages (last (requests (handleSubmit example_turn example_state)))
       = [\<lparr> role = System, content = buildSystemPrompt Balanced None \<rparr>,
          \<lparr> role = User, content = ''Hello'' \<rparr>,
          \<lparr> role = Assistant, content = ''Hi there'' \<rparr>,
          \<lparr> role = User, content = ''How are you?'' \<rparr>]
   \<and> last (req_messages (last (requests (handleSubmit example_turn example_state))))
       \<noteq> \<lparr> role = User, content = input example_state \<rparr>
   \<and> count_list
        (req_messages (last (requests
           (handleSubmit example_turn (example_state\<lparr>input := ''Hello''\<rparr>)))))
        \<lparr> role = User, content = ''Hello'' \<rparr> = 2
   \<and> length (messages long_history_state) = 22
   \<and> req_messages (last (requests (handleSubmit example_turn long_history_state)))
       = [\<lparr> role = System, content = buildSystemPrompt Balanced None \<rparr>]
         @ map to_chat (drop 2 (messages long_history_state))
         @ [\<lparr> role = User, content = ''How are you?'' \<rparr>]"
proof -
  have a: "req_messages (last (requests (handleSubmit example_turn example_state)))
           = chatMessages example_state (trim (input example_state))"
    using handleSubmit_requests[OF example_facts(2,3)] by simp
  have c: "can_submit (example_state\<lparr>input := ''Hello''\<rparr>)"
    by (simp add: example_state_def can_submit_def space_eval)
  have "req_messages (last (requests (handleSubmit example_turn (example_state\<lparr>input := ''Hello''\<rparr>))))
        = chatMessages (example_state\<lparr>input := ''Hello''\<rparr>) ''Hello''"
    using handleSubmit_requests[OF c example_facts(3)] by (simp add: space_eval)
  then have b: "count_list
        (req_messages (last (requests
           (handleSubmit example_turn (example_state\<lparr>input := ''Hello''\<rparr>)))))
        \<lparr> role = User, content = ''Hello'' \<rparr> = 2"
    by (simp add: chatMessages_def example_state_def slice_last_def to_chat_def)
  have i: "input example_state = ''  How are you?  ''" by (simp add: example_state_def)
  show ?thesis
    unfolding a example_history long_history_request long_history_facts(1)
    using b i by simp
qed

text \<open>
  Claim C5, amended. For every submission that starts a turn (the input is not blank,
  there are a key and a model, no turn is loading) and whose user message is saved, the
  handler calls \<open>streamChat\<close> once more, with the list: the system prompt, then the last
  prior messages of the history, at most 20 messages, in their order (all of them when
  there are at most 20), then the user's message with the trimmed input. The new message is the
  last entry, and the only entry with its role and text unless a prior message in the
  window has the same.
\<close>

theorem outgoing_request_messages:
  assumes "can_submit s" "user_save t = None"
  shows "(\<exists>key model. apiKey s = Some key \<and> selectedModel s = Some model
           \<and> requests (handleSubmit t s) = requests s
               @ [\<lparr> req_apiKey = key, req_model = model,
                    req_messages =
                      [\<lparr> role = System,
                         content = buildSystemPrompt (personality s) (userName s) \<rparr>]
                      @ map to_chat (slice_last 20 (messages s))
                      @ [\<lparr> role = User, content = trim (input s) \<rparr>] \<rparr>])
       \<and> length (slice_last 20 (messages s)) = min 20 (length (messages s))
       \<and> messages s = take (length (messages s) - 20) (messages s) @ slice_last 20 (messages s)
       \<and> (length (messages s) \<le> 20 \<longrightarrow> slice_last 20 (messages s) = messages s)
       \<and> last (chatMessages s (trim (input s))) = \<lparr> role = User, content = trim (input s) \<rparr>
       \<and> (\<lparr> role = User, content = trim (input s) \<rparr>
              \<notin> set (map to_chat (slice_last 20 (messages s)))
            \<longrightarrow> count_list (chatMessages s (trim (input s)))
                  \<lparr> role = User, content = trim (input s) \<rparr> = 1)"
proof -
  obtain key model where k: "apiKey s = Some key" "selectedModel s = Some model"
    using assms(1) by (auto simp: can_submit_def)
  have r: "requests (handleSubmit t s) = requests s
               @ [\<lparr> req_apiKey = key, req_model = model,
                    req_messages =
                      [\<lparr> role = System,
                         content = buildSystemPrompt (personality s) (userName s) \<rparr>]
                      @ map to_chat (slice_last 20 (messages s))
                      @ [\<lparr> role = User, content = trim (input s) \<rparr>] \<rparr>]"
    using handleSubmit_requests[OF assms] k by (simp add: chatMessages_def)
  have c: "\<lparr> role = User, content = trim (input s) \<rparr>
              \<notin> set (map to_chat (slice_last 20 (messages s)))
            \<Longrightarrow> count_list (chatMessages s (trim (input s)))
                  \<lparr> role = User, content = trim (input s) \<rparr> = 1"
    by (simp add: chatMessages_def count_list_append count_list_0_iff[THEN iffD2])
  show ?thesis
    using k r c slice_last_facts(1)[of 20 "messages s"] slice_last_facts(2)[of "messages s" 20]
      slice_last_facts(3)[of "messages s" 20]
    by (simp add: chatMessages_def)
qed

theorem outgoing_request_messages_witness:
  "can_submit example_state \<and> user_save example_turn = None
   \<and> requests (handleSubmit example_turn example_state)
       = [\<lparr> req_apiKey = ''key'', req_model = ''model'',
            req_messages =
              [\<lparr> role = System, content = buildSystemPrompt Balanced None \<rparr>,
               \<lparr> role = User, content = ''Hello'' \<rparr>,
               \<lparr> role = Assistant, content = ''Hi there'' \<rparr>,
               \<lparr> role = User, content = ''How are you?'' \<rparr>] \<rparr>]
   \<and> count_list (chatMessages example_state (trim (input example_state)))
        \<lparr> role = User, content = ''How are you?'' \<rparr> = 1"
proof -
  have e: "apiKey example_state = Some ''key''" "selectedModel example_state = Some ''model''"
    "requests example_state = []" "personality example_state = Balanced"
    "userName example_state = None"
    "map to_chat (slice_last 20 (messages example_state))
       = [\<lparr> role = User, content = ''Hello'' \<rparr>, \<lparr> role = Assistant, content = ''Hi there'' \<rparr>]"
    by (simp_all add: example_state_def slice_last_def to_chat_def)
  show ?thesis
    using outgoing_request_messages[OF example_facts(2,3)] example_facts(2,3)
    unfolding example_facts(1) e
    by simp
qed

text \<open>
  Claim C6. Let a turn start, its user message be saved, and the identifier of the
  assistant's message be new, and let the stream end with an exception.

  When the exception is named \<open>AbortError\<close>, the cancellation: the conversation is the
  prior one, the user's message and the assistant's message with the text of the
  fragments received, and no error message is added. The handling of the cancellation
  sets no mood: the \<open>catch\<close> block leaves every state as it is, so the turn ends with the
  mood it had at the moment the abort arrived. That mood is \<open>talking\<close>, or \<open>idle\<close> when a
  timer of an earlier turn has run out meanwhile, or a mood the detector inferred from
  the partial text, as in any turn; with no timer running it is the last inferred mood
  other than \<open>talking\<close>, or \<open>talking\<close>. So \<open>confused\<close> never comes from the cancellation.

  When the exception has any other name: the same conversation is followed by exactly
  one error message, and the mood is set to \<open>confused\<close>, whatever it was.

  In both cases \<open>streamChat\<close> was called once, there is no retry, and the turn is neither
  loading nor streaming afterwards.
\<close>

theorem cancellation_and_failure:
  assumes "can_submit s" "user_save t = None" "fresh_assistant_id t s" "stream_end t = Failed e"
  shows "(exn_name e = ''AbortError'' \<longrightarrow>
            messages (handleSubmit t s) = messages s @ [user_message t s, assistant_message t]
            \<and> (\<forall>s'. catch_block t e s' = s')
            \<and> buddyMood (handleSubmit t s) = buddyMood (state_at_stream_end t s)
            \<and> buddyMood (handleSubmit t s)
                 \<in> insert Talking (insert Idle (set (inferred_moods (stream_fragments t))))
            \<and> (Confused \<notin> set (inferred_moods (stream_fragments t))
                 \<longrightarrow> buddyMood (handleSubmit t s) \<noteq> Confused)
            \<and> (idle_timers s = 0
                 \<longrightarrow> buddyMood (handleSubmit t s) = streamed_mood (stream_fragments t)))
       \<and> (exn_name e \<noteq> ''AbortError'' \<longrightarrow>
            messages (handleSubmit t s)
              = messages s @ [user_message t s, assistant_message t, error_indicator t e]
            \<and> (\<forall>s'. messages (catch_block t e s') = messages s' @ [error_indicator t e]
                     \<and> buddyMood (catch_block t e s') = Confused)
            \<and> buddyMood (handleSubmit t s) = Confused)
       \<and> length (requests (handleSubmit t s)) = length (requests s) + 1
       \<and> \<not> isLoading (handleSubmit t s) \<and> \<not> isStreaming (handleSubmit t s)"
proof -
  let ?sc = "state_at_stream_end t s"
  have msgs: "messages ?sc = messages s @ [user_message t s, assistant_message t]"
    unfolding state_at_stream_end_def by (rule stream_phase_state(1)[OF assms(3)])
  have cases: "buddyMood ?sc
                 \<in> insert Talking (insert Idle (set (inferred_moods (stream_fragments t))))"
    unfolding state_at_stream_end_def by (rule stream_phase_mood_cases)
  have exact: "buddyMood ?sc = streamed_mood (stream_fragments t)" if "idle_timers s = 0"
    unfolding state_at_stream_end_def
    by (rule stream_phase_mood_no_timer[OF before_try_no_timer[OF that]])
  have hs: "handleSubmit t s = finally_block (catch_block t e ?sc)"
    by (rule handleSubmit_failed[OF assms(1,2,4)])
  have abort: "messages (handleSubmit t s) = messages s @ [user_message t s, assistant_message t]
            \<and> (\<forall>s'. catch_block t e s' = s')
            \<and> buddyMood (handleSubmit t s) = buddyMood ?sc"
    if "exn_name e = ''AbortError''"
    unfolding hs using msgs by (simp add: catch_block_abort[OF that] finally_block_def)
  have fail: "messages (handleSubmit t s)
              = messages s @ [user_message t s, assistant_message t, error_indicator t e]
            \<and> (\<forall>s'. messages (catch_block t e s') = messages s' @ [error_indicator t e]
                     \<and> buddyMood (catch_block t e s') = Confused)
            \<and> buddyMood (handleSubmit t s) = Confused"
    if "exn_name e \<noteq> ''AbortError''"
    unfolding hs using msgs by (simp add: catch_block_failure[OF that] finally_block_def)
  have req: "length (requests (handleSubmit t s)) = length (requests s) + 1"
    using handleSubmit_requests[OF assms(1,2)] by simp
  have fin: "\<not> isLoading (handleSubmit t s) \<and> \<not> isStreaming (handleSubmit t s)"
    unfolding hs by (simp add: finally_block_def)
  have a: "exn_name e = ''AbortError'' \<longrightarrow>
            messages (handleSubmit t s) = messages s @ [user_message t s, assistant_message t]
            \<and> (\<forall>s'. catch_block t e s' = s')
            \<and> buddyMood (handleSubmit t s) = buddyMood (state_at_stream_end t s)
            \<and> buddyMood (handleSubmit t s)
                 \<in> insert Talking (insert Idle (set (inferred_moods (stream_fragments t))))
            \<and> (Confused \<notin> set (inferred_moods (stream_fragments t))
                 \<longrightarrow> buddyMood (handleSubmit t s) \<noteq> Confused)
            \<and> (idle_timers s = 0
                 \<longrightarrow> buddyMood (handleSubmit t s) = streamed_mood (stream_fragments t))"
  proof
    assume n: "exn_name e = ''AbortError''"
    have m: "buddyMood (handleSubmit t s) = buddyMood ?sc" using abort[OF n] by simp
    have in_cases: "buddyMood (handleSubmit t s)
                 \<in> insert Talking (insert Idle (set (inferred_moods (stream_fragments t))))"
      using cases by (simp only: m)
    have not_confused: "Confused \<notin> set (inferred_moods (stream_fragments t))
                 \<longrightarrow> buddyMood (handleSubmit t s) \<noteq> Confused"
      using in_cases by auto
    have no_timer: "idle_timers s = 0
                 \<longrightarrow> buddyMood (handleSubmit t s) = streamed_mood (stream_fragments t)"
      using exact by (simp add: m)
    show "messages (handleSubmit t s) = messages s @ [user_message t s, assistant_message t]
            \<and> (\<forall>s'. catch_block t e s' = s')
            \<and> buddyMood (handleSubmit t s) = buddyMood (state_at_stream_end t s)
            \<and> buddyMood (handleSubmit t s)
                 \<in> insert Talking (insert Idle (set (inferred_moods (stream_fragments t))))
            \<and> (Confused \<notin> set (inferred_moods (stream_fragments t))
                 \<longrightarrow> buddyMood (handleSubmit t s) \<noteq> Confused)
            \<and> (idle_timers s = 0
                 \<longrightarrow> buddyMood (handleSubmit t s) = streamed_mood (stream_fragments t))"
      using abort[OF n] in_cases not_confused no_timer by blast
  qed
  show ?thesis using a fail req fin by blast
qed

theorem cancellation_and_failure_witness:
  "can_submit example_state
   \<and> stream_end cancelled_turn = Failed (Exn ''AbortError'' ''The operation was aborted.'')
   \<and> messages (handleSubmit cancelled_turn example_state)
       = messages example_state
         @ [\<lparr> role = User, content = ''How are you?'', msg_id = ''u'', timestamp = 3 \<rparr>,
            \<lparr> role = Assistant, content = ''I am '', msg_id = ''a'', timestamp = 4 \<rparr>]
   \<and> buddyMood (handleSubmit cancelled_turn example_state) = Talking
   \<and> stream_end cancelled_timer_turn
       = Failed (Exn ''AbortError'' ''The operation was aborted.'')
   \<and> messages (handleSubmit cancelled_timer_turn pending_timer_state)
       = messages example_state
         @ [\<lparr> role = User, content = ''How are you?'', msg_id = ''u'', timestamp = 3 \<rparr>,
            \<lparr> role = Assistant, content = ''I am '', msg_id = ''a'', timestamp = 4 \<rparr>]
   \<and> buddyMood (handleSubmit cancelled_timer_turn pending_timer_state) = Idle
   \<and> stream_end failed_turn = Failed (Exn ''TypeError'' ''network error'')
   \<and> messages (handleSubmit failed_turn example_state)
       = messages example_state
         @ [\<lparr> role = User, content = ''How are you?'', msg_id = ''u'', timestamp = 3 \<rparr>,
            \<lparr> role = Assistant, content = ''I am '', msg_id = ''a'', timestamp = 4 \<rparr>,
            \<lparr> role = Assistant, content = ''Oops, something went wrong: network error'',
              msg_id = ''e'', timestamp = 5 \<rparr>]
   \<and> buddyMood (handleSubmit failed_turn example_state) = Confused
   \<and> length (requests (handleSubmit failed_turn example_state)) = 1"
proof -
  have c: "stream_end cancelled_turn = Failed (Exn ''AbortError'' ''The operation was aborted.'')"
    and f: "stream_end failed_turn = Failed (Exn ''TypeError'' ''network error'')"
    by (simp_all add: cancelled_turn_def failed_turn_def example_turn_def)
  have m: "user_message cancelled_turn example_state
             = \<lparr> role = User, content = ''How are you?'', msg_id = ''u'', timestamp = 3 \<rparr>"
    "user_message failed_turn example_state
             = \<lparr> role = User, content = ''How are you?'', msg_id = ''u'', timestamp = 3 \<rparr>"
    "user_message cancelled_timer_turn pending_timer_state
             = \<lparr> role = User, content = ''How are you?'', msg_id = ''u'', timestamp = 3 \<rparr>"
    "assistant_message cancelled_turn
             = \<lparr> role = Assistant, content = ''I am '', msg_id = ''a'', timestamp = 4 \<rparr>"
    "assistant_message cancelled_timer_turn
             = \<lparr> role = Assistant, content = ''I am '', msg_id = ''a'', timestamp = 4 \<rparr>"
    "assistant_message failed_turn
             = \<lparr> role = Assistant, content = ''I am '', msg_id = ''a'', timestamp = 4 \<rparr>"
    "error_indicator failed_turn (Exn ''TypeError'' ''network error'')
             = \<lparr> role = Assistant, content = ''Oops, something went wrong: network error'',
                 msg_id = ''e'', timestamp = 5 \<rparr>"
    "streamed_mood (stream_fragments cancelled_turn) = Talking"
    "requests example_state = []"
    unfolding user_message_def example_facts(1) pending_timer_facts(1)
    by (simp_all add: assistant_message_def error_indicator_def cancelled_turn_def
        cancelled_timer_turn_def failed_turn_def example_turn_def streamed_mood_def
        inferred_moods_def short_text_mood example_state_def)
  have n: "exn_name (Exn ''AbortError'' ''The operation was aborted.'') = ''AbortError''"
    and nf: "exn_name (Exn ''TypeError'' ''network error'') \<noteq> ''AbortError''"
    by simp_all
  have "messages (handleSubmit cancelled_turn example_state)
          = messages example_state
            @ [user_message cancelled_turn example_state, assistant_message cancelled_turn]
        \<and> buddyMood (handleSubmit cancelled_turn example_state)
          = streamed_mood (stream_fragments cancelled_turn)"
    using cancellation_and_failure[OF example_facts(2,4,7) c] n example_facts(10) by blast
  then have 1: "messages (handleSubmit cancelled_turn example_state)
       = messages example_state
         @ [\<lparr> role = User, content = ''How are you?'', msg_id = ''u'', timestamp = 3 \<rparr>,
            \<lparr> role = Assistant, content = ''I am '', msg_id = ''a'', timestamp = 4 \<rparr>]
       \<and> buddyMood (handleSubmit cancelled_turn example_state) = Talking"
    by (simp only: m)
  have "messages (handleSubmit cancelled_timer_turn pending_timer_state)
          = messages pending_timer_state
            @ [user_message cancelled_timer_turn pending_timer_state,
               assistant_message cancelled_timer_turn]
        \<and> buddyMood (handleSubmit cancelled_timer_turn pending_timer_state)
          = buddyMood (state_at_stream_end cancelled_timer_turn pending_timer_state)"
    using cancellation_and_failure[OF pending_timer_facts(2,3,4,5)] n by blast
  then have 2: "messages (handleSubmit cancelled_timer_turn pending_timer_state)
       = messages example_state
         @ [\<lparr> role = User, content = ''How are you?'', msg_id = ''u'', timestamp = 3 \<rparr>,
            \<lparr> role = Assistant, content = ''I am '', msg_id = ''a'', timestamp = 4 \<rparr>]
       \<and> buddyMood (handleSubmit cancelled_timer_turn pending_timer_state) = Idle"
    by (simp only: m pending_timer_mood pending_timer_facts(6))
  have "messages (handleSubmit failed_turn example_state)
          = messages example_state
            @ [user_message failed_turn example_state, assistant_message failed_turn,
               error_indicator failed_turn (Exn ''TypeError'' ''network error'')]
        \<and> buddyMood (handleSubmit failed_turn example_state) = Confused
        \<and> length (requests (handleSubmit failed_turn example_state))
          = length (requests example_state) + 1"
    using cancellation_and_failure[OF example_facts(2,5,8) f] nf by blast
  then have 3: "messages (handleSubmit failed_turn example_state)
       = messages example_state
         @ [\<lparr> role = User, content = ''How are you?'', msg_id = ''u'', timestamp = 3 \<rparr>,
            \<lparr> role = Assistant, content = ''I am '', msg_id = ''a'', timestamp = 4 \<rparr>,
            \<lparr> role = Assistant, content = ''Oops, something went wrong: network error'',
              msg_id = ''e'', timestamp = 5 \<rparr>]
       \<and> buddyMood (handleSubmit failed_turn example_state) = Confused
       \<and> length (requests (handleSubmit failed_turn example_state)) = 1"
    unfolding m by simp
  show ?thesis
    using 1 2 3 example_facts(2) c f pending_timer_facts(5) by simp
qed

end
